theory Spec2Isabelle
  imports Main "HOL-Library.Multiset"
begin

section \<open>Network genealogies: the data model\<close>

text \<open>
  The development follows \<^verbatim>\<open>packages/db/src/meta/graph/types.ts\<close>: the generator
  \<^verbatim>\<open>process\<close> that loads NetworkGenealogy records, and its helpers
  \<^verbatim>\<open>collectNetworks\<close>, \<^verbatim>\<open>findRelation\<close>,
  \<^verbatim>\<open>queryNextPossiblyRelatedNetworks\<close> and \<^verbatim>\<open>findMatchingCandidateOnChain\<close>.

  An \<^verbatim>\<open>IdObject\<close> carries an id only; a network resource, as the GraphQL fragment selects
  it, carries the id and the historic block. The field \<^verbatim>\<open>id\<close> is written \<open>id'\<close>, since
  \<open>id\<close> is the identity function of HOL.
\<close>

record IdObject =
  id' :: string

record HistoricBlock =
  hash :: string
  height :: int

record Network = IdObject +
  historicBlock :: HistoricBlock

text \<open>\<^verbatim>\<open>Input<"networkGenealogies">\<close>: the object \<^verbatim>\<open>{ ancestor, descendant }\<close>.\<close>

record NetworkGenealogyInput =
  ancestor :: IdObject
  descendant :: IdObject

text \<open>
  \<^verbatim>\<open>DataModel.CandidateSearchResult\<close>, as the fragment of
  \<^verbatim>\<open>queryNextPossiblyRelatedNetworks\<close> selects it. The fragment selects
  \<^verbatim>\<open>alreadyTried { id }\<close>; each such entry is represented by its id.
\<close>

record CandidateSearchResult =
  networks :: "Network list"
  alreadyTried :: "string list"

text \<open>
  The argument of \<^verbatim>\<open>process\<close>: a sparse list of networks (\<open>None\<close> is
  \<^verbatim>\<open>undefined\<close>) and the flag \<^verbatim>\<open>disableIndex\<close>, which is only ever tested for
  truthiness (\<^verbatim>\<open>undefined\<close> is \<open>False\<close>).
\<close>

record Options =
  networks :: "Network option list"
  disableIndex :: bool

text \<open>The result of \<^verbatim>\<open>collectNetworks\<close>.\<close>

record Collected =
  networks :: "IdObject list"
  networkGenealogies :: "NetworkGenealogyInput list"

datatype relation = Ancestor | Descendant

text \<open>
  Modelled from the spec: \<^verbatim>\<open>toIdObject\<close> is imported from
  \<^verbatim>\<open>@truffle/db/resources\<close>, which is not among the sources. The spec calls its result a
  network reference, and the type \<^verbatim>\<open>IdObject<"networks">\<close> of the source is an object
  holding the id alone.
\<close>

definition toIdObject :: "Network \<Rightarrow> IdObject" where
  "toIdObject network = \<lparr>id' = id' network\<rparr>"

section \<open>Effects, responses and the interpreter\<close>

text \<open>
  The generators yield requests and are resumed with responses. Three kinds of request
  occur: the GraphQL query of \<^verbatim>\<open>resources.get\<close>, the \<^verbatim>\<open>web3\<close> request
  \<^verbatim>\<open>eth_getBlockByNumber\<close>, and the bulk \<^verbatim>\<open>resources.load\<close>.

  The text of the GraphQL fragment is determined by the resource id, the relation, the
  running \<^verbatim>\<open>fragmentIndex\<close>, the \<^verbatim>\<open>alreadyTried\<close> list and \<^verbatim>\<open>disableIndex\<close>.
\<close>

record GetRequest =
  resourceId :: string
  forRelation :: relation
  fragment :: nat
  excluded :: "string list"
  indexDisabled :: bool

text \<open>
  \<^verbatim>\<open>resources.get\<close> is imported from \<^verbatim>\<open>@truffle/db/process\<close>, which is not among
  the sources; it issues one store query. When resumed, it throws (the store failed to answer), or
  it returns an object whose property \<^verbatim>\<open>possibleAncestors\<close> (or
  \<^verbatim>\<open>possibleDescendants\<close>) is either missing (\<open>None\<close>) or a candidate search result.
\<close>

datatype get_response = GetThrows | GetReturns "CandidateSearchResult option"

text \<open>
  What the \<^verbatim>\<open>web3\<close> request is resumed with: an exception (the chain client failed to
  answer), a falsy response, a response whose \<^verbatim>\<open>result\<close> is \<^verbatim>\<open>null\<close> (no block at
  that height: \<open>Web3Result None\<close>), or a response whose \<^verbatim>\<open>result\<close> is a block with the
  given hash.
\<close>

datatype web3_response = Web3Throws | Web3Undefined | Web3Result "string option"

datatype load_response = LoadThrows | LoadReturns "IdObject list"

datatype event =
    Get GetRequest get_response
  | Web3 int web3_response
  | Load "NetworkGenealogyInput list" load_response

text \<open>
  The interpreter that drives the generators is not part of the sources, so it is a
  parameter: it answers each request, and its answer may depend on everything that was
  requested and answered before.
\<close>

record interpreter =
  graphql :: "event list \<Rightarrow> GetRequest \<Rightarrow> get_response"
  web3 :: "event list \<Rightarrow> int \<Rightarrow> web3_response"
  loader :: "event list \<Rightarrow> NetworkGenealogyInput list \<Rightarrow> load_response"

text \<open>
  The state threaded through the generators: the requests issued so far with their
  responses, and the module-level counter \<^verbatim>\<open>fragmentIndex\<close>.
\<close>

record state =
  history :: "event list"
  fragmentIndex :: nat

datatype error = StoreQueryError | ChainQueryError | StoreLoadError | TypeError

section \<open>The Lineage Collector: \<^verbatim>\<open>collectNetworks\<close>\<close>

text \<open>\<^verbatim>\<open>options.networks.filter(network => !!network)\<close>\<close>

fun present :: "'a option list \<Rightarrow> 'a list" where
  "present [] = []"
| "present (None # xs) = present xs"
| "present (Some x # xs) = x # present xs"

text \<open>
  \<^verbatim>\<open>.sort((a, b) => a.historicBlock.height - b.historicBlock.height)\<close>: the sort of
  JavaScript arrays is stable, and so is \<open>sort_key\<close>.
\<close>

definition sortedResources :: "Options \<Rightarrow> Network list" where
  "sortedResources options =
     sort_key (\<lambda>network. height (historicBlock network)) (present (Options.networks options))"

text \<open>
  The reducer of \<^verbatim>\<open>collectNetworks\<close>. The accumulator
  \<^verbatim>\<open>{ ancestor, networkGenealogies }\<close> is a pair.
\<close>

definition reducer ::
  "IdObject \<times> NetworkGenealogyInput list \<Rightarrow> IdObject \<Rightarrow> IdObject \<times> NetworkGenealogyInput list" where
  "reducer acc d =
     (d,
      if id' (fst acc) = id' d then snd acc
      else snd acc @ [\<lparr>ancestor = fst acc, descendant = d\<rparr>])"

definition collectNetworks :: "Options \<Rightarrow> Collected" where
  "collectNetworks options =
     (let nets = map toIdObject (sortedResources options)
      in case nets of
           [] \<Rightarrow> \<lparr>networks = [], networkGenealogies = []\<rparr>
         | first # rest \<Rightarrow>
             \<lparr>networks = nets, networkGenealogies = snd (foldl reducer (first, []) rest)\<rparr>)"

section \<open>The Chain Validator: \<^verbatim>\<open>findMatchingCandidateOnChain\<close>\<close>

fun findMatchingCandidateOnChain ::
  "interpreter \<Rightarrow> Network list \<Rightarrow> state \<Rightarrow> (error + IdObject option) \<times> state" where
  "findMatchingCandidateOnChain I [] s = (Inr None, s)"
| "findMatchingCandidateOnChain I (candidate # candidates) s =
     (let h = height (historicBlock candidate);
          response = web3 I (history s) h;
          s' = s\<lparr>history := history s @ [Web3 h response]\<rparr>
      in case response of
           Web3Throws \<Rightarrow> (Inl ChainQueryError, s')
         | Web3Undefined \<Rightarrow> findMatchingCandidateOnChain I candidates s'
         | Web3Result None \<Rightarrow> findMatchingCandidateOnChain I candidates s'
         | Web3Result (Some blockHash) \<Rightarrow>
             if blockHash = hash (historicBlock candidate)
             then (Inr (Some (toIdObject candidate)), s')
             else findMatchingCandidateOnChain I candidates s')"

section \<open>Candidate Search: \<^verbatim>\<open>queryNextPossiblyRelatedNetworks\<close> and \<^verbatim>\<open>findRelation\<close>\<close>

text \<open>
  The network argument is \<open>None\<close> when \<^verbatim>\<open>process\<close> passes \<^verbatim>\<open>networks[0]\<close> of an empty
  array. Then \<^verbatim>\<open>network.id\<close> throws inside the \<^verbatim>\<open>try\<close> block, before anything is
  yielded. Whatever is thrown inside the \<^verbatim>\<open>try\<close> block is caught and logged, and
  \<^verbatim>\<open>result\<close> stays \<^verbatim>\<open>undefined\<close>; the statement after the block reads
  \<^verbatim>\<open>result.networks\<close>, which throws a TypeError.
\<close>

definition queryNextPossiblyRelatedNetworks ::
  "interpreter \<Rightarrow> relation \<Rightarrow> IdObject option \<Rightarrow> string list \<Rightarrow> bool \<Rightarrow> state
     \<Rightarrow> (error + CandidateSearchResult) \<times> state" where
  "queryNextPossiblyRelatedNetworks I rel network tried disable s =
     (case network of
        None \<Rightarrow> (Inl TypeError, s)
      | Some n \<Rightarrow>
          (let request = \<lparr>resourceId = id' n, forRelation = rel, fragment = fragmentIndex s,
                          excluded = tried, indexDisabled = disable\<rparr>;
               response = graphql I (history s) request;
               s' = s\<lparr>history := history s @ [Get request response],
                      fragmentIndex := Suc (fragmentIndex s)\<rparr>
           in case response of
                GetThrows \<Rightarrow> (Inl TypeError, s')
              | GetReturns None \<Rightarrow> (Inl TypeError, s')
              | GetReturns (Some result) \<Rightarrow> (Inr result, s')))"

text \<open>
  The \<^verbatim>\<open>do ... while (candidates.length > 0)\<close> loop of \<^verbatim>\<open>findRelation\<close>, with the
  number of iterations it may still make; the result \<open>None\<close> says that this number did
  not suffice.
\<close>

fun findRelationLoop ::
  "nat \<Rightarrow> interpreter \<Rightarrow> relation \<Rightarrow> IdObject option \<Rightarrow> bool \<Rightarrow> string list \<Rightarrow> state
     \<Rightarrow> (error + IdObject option) option \<times> state" where
  "findRelationLoop 0 I rel network disable tried s = (None, s)"
| "findRelationLoop (Suc fuel) I rel network disable tried s =
     (case queryNextPossiblyRelatedNetworks I rel network tried disable s of
        (Inl e, s1) \<Rightarrow> (Some (Inl e), s1)
      | (Inr result, s1) \<Rightarrow>
          (case findMatchingCandidateOnChain I (CandidateSearchResult.networks result) s1 of
             (Inl e, s2) \<Rightarrow> (Some (Inl e), s2)
           | (Inr (Some matchingCandidate), s2) \<Rightarrow> (Some (Inr (Some matchingCandidate)), s2)
           | (Inr None, s2) \<Rightarrow>
               if length (CandidateSearchResult.networks result) > 0
               then findRelationLoop fuel I rel network disable (alreadyTried result) s2
               else (Some (Inr None), s2)))"

definition findRelation ::
  "nat \<Rightarrow> interpreter \<Rightarrow> relation \<Rightarrow> IdObject option \<Rightarrow> bool \<Rightarrow> state
     \<Rightarrow> (error + IdObject option) option \<times> state" where
  "findRelation fuel I rel network disable s = findRelationLoop fuel I rel network disable [] s"

section \<open>The Genealogy Loader: \<^verbatim>\<open>process\<close>\<close>

text \<open>The body of \<^verbatim>\<open>for (const network of networks)\<close>, and the loop itself.\<close>

fun searchAll ::
  "nat \<Rightarrow> interpreter \<Rightarrow> bool \<Rightarrow> IdObject list \<Rightarrow> NetworkGenealogyInput list \<Rightarrow> state
     \<Rightarrow> (error + NetworkGenealogyInput list) option \<times> state" where
  "searchAll fuel I disable [] genealogies s = (Some (Inr genealogies), s)"
| "searchAll fuel I disable (network # rest) genealogies s =
     (case findRelation fuel I Ancestor (Some network) disable s of
        (None, s1) \<Rightarrow> (None, s1)
      | (Some (Inl e), s1) \<Rightarrow> (Some (Inl e), s1)
      | (Some (Inr found), s1) \<Rightarrow>
          (let genealogies1 =
                 (case found of
                    None \<Rightarrow> genealogies
                  | Some a \<Rightarrow> genealogies @ [\<lparr>ancestor = a, descendant = network\<rparr>])
           in case findRelation fuel I Descendant (Some network) disable s1 of
                (None, s2) \<Rightarrow> (None, s2)
              | (Some (Inl e), s2) \<Rightarrow> (Some (Inl e), s2)
              | (Some (Inr found'), s2) \<Rightarrow>
                  (let genealogies2 =
                         (case found' of
                            None \<Rightarrow> genealogies1
                          | Some d \<Rightarrow> genealogies1 @ [\<lparr>ancestor = network, descendant = d\<rparr>])
                   in searchAll fuel I disable rest genealogies2 s2)))"

text \<open>
  Modelled from the spec: \<^verbatim>\<open>resources.load\<close> is imported from
  \<^verbatim>\<open>@truffle/db/process\<close>, which is not among the sources. By the spec's store
  interface, \<^verbatim>\<open>load\<close> takes the whole list of inputs in one request and returns the
  references of the persisted resources, or fails. This is
  \<^verbatim>\<open>yield* resources.load("networkGenealogies", networkGenealogies)\<close>.
\<close>

definition load ::
  "interpreter \<Rightarrow> NetworkGenealogyInput list \<Rightarrow> state \<Rightarrow> (error + IdObject list) \<times> state" where
  "load I genealogies s =
     (let response = loader I (history s) genealogies;
          s' = s\<lparr>history := history s @ [Load genealogies response]\<rparr>
      in case response of
           LoadThrows \<Rightarrow> (Inl StoreLoadError, s')
         | LoadReturns results \<Rightarrow> (Inr results, s'))"

text \<open>\<^verbatim>\<open>networks[0]\<close>, which is \<^verbatim>\<open>undefined\<close> for an empty array.\<close>

definition earliest :: "IdObject list \<Rightarrow> IdObject option" where
  "earliest nets = (case nets of [] \<Rightarrow> None | n # _ \<Rightarrow> Some n)"

text \<open>
  \<^verbatim>\<open>process\<close>. A plain \<^verbatim>\<open>return\<close> gives \<open>Inr None\<close>. The constant \<^verbatim>\<open>latest\<close> of the
  source is computed and never used, and has no effect.
\<close>

definition process ::
  "nat \<Rightarrow> interpreter \<Rightarrow> Options \<Rightarrow> state \<Rightarrow> (error + IdObject list option) option \<times> state" where
  "process fuel I options s =
     (if length (Options.networks options) = 0 then (Some (Inr None), s)
      else
        (let collected = collectNetworks options
         in case findRelation fuel I Ancestor (earliest (Collected.networks collected))
                   (disableIndex options) s of
              (None, s1) \<Rightarrow> (None, s1)
            | (Some (Inl e), s1) \<Rightarrow> (Some (Inl e), s1)
            | (Some (Inr _), s1) \<Rightarrow>
                (case searchAll fuel I (disableIndex options) (Collected.networks collected)
                        (networkGenealogies collected) s1 of
                   (None, s2) \<Rightarrow> (None, s2)
                 | (Some (Inl e), s2) \<Rightarrow> (Some (Inl e), s2)
                 | (Some (Inr genealogies), s2) \<Rightarrow>
                     (case load I genealogies s2 of
                        (Inl e, s3) \<Rightarrow> (Some (Inl e), s3)
                      | (Inr results, s3) \<Rightarrow> (Some (Inr (Some results)), s3)))))"

section \<open>Observations of a run\<close>

text \<open>The GraphQL requests among some events, in the order they were issued.\<close>

fun getRequests :: "event list \<Rightarrow> GetRequest list" where
  "getRequests [] = []"
| "getRequests (Get q r # es) = q # getRequests es"
| "getRequests (e # es) = getRequests es"

text \<open>The \<^verbatim>\<open>alreadyTried\<close> lists that the store answered, in order.\<close>

fun answeredTried :: "event list \<Rightarrow> string list list" where
  "answeredTried [] = []"
| "answeredTried (Get q (GetReturns (Some result)) # es) = alreadyTried result # answeredTried es"
| "answeredTried (e # es) = answeredTried es"

text \<open>The genealogy lists handed to \<^verbatim>\<open>resources.load\<close>, in order.\<close>

fun loads :: "event list \<Rightarrow> NetworkGenealogyInput list list" where
  "loads [] = []"
| "loads (Load gs r # es) = gs # loads es"
| "loads (e # es) = loads es"

text \<open>The events of a run that took the state \<open>s\<close> to the state \<open>s'\<close>.\<close>

definition newEvents :: "state \<Rightarrow> state \<Rightarrow> event list" where
  "newEvents s s' = drop (length (history s)) (history s')"

section \<open>Example inputs\<close>

text \<open>Three networks of the same chain, observed at heights 100, 200 and 300.\<close>

definition n1 :: Network where
  "n1 = \<lparr>id' = ''n1'', historicBlock = \<lparr>hash = ''0xaa'', height = 100\<rparr>\<rparr>"

definition n2 :: Network where
  "n2 = \<lparr>id' = ''n2'', historicBlock = \<lparr>hash = ''0xbb'', height = 200\<rparr>\<rparr>"

definition n3 :: Network where
  "n3 = \<lparr>id' = ''n3'', historicBlock = \<lparr>hash = ''0xcc'', height = 300\<rparr>\<rparr>"

text \<open>A sparse batch, out of order, with a duplicate and an absent entry.\<close>

definition sparseBatch :: Options where
  "sparseBatch = \<lparr>Options.networks = [Some n2, None, Some n1, Some n1], disableIndex = False\<rparr>"

definition initialState :: state where
  "initialState = \<lparr>history = [], fragmentIndex = 0\<rparr>"

text \<open>A store that knows no related network, on a chain that has no block anywhere.\<close>

definition quietStore :: interpreter where
  "quietStore =
     \<lparr>graphql = (\<lambda>h q. GetReturns
         (Some \<lparr>CandidateSearchResult.networks = [], alreadyTried = excluded q\<rparr>)),
      web3 = (\<lambda>h n. Web3Result None),
      loader = (\<lambda>h gs. LoadReturns [])\<rparr>"

text \<open>A store that fails to answer every query.\<close>

definition failingStore :: interpreter where
  "failingStore = quietStore\<lparr>graphql := \<lambda>h q. GetThrows\<rparr>"

text \<open>
  A store that knows \<open>n1\<close> as a possible ancestor of every other network, leaves out what
  the request excludes and reports what it has tried; the chain has the block of \<open>n1\<close>.
\<close>

definition knownStore :: interpreter where
  "knownStore =
     \<lparr>graphql = (\<lambda>h q.
         let candidates =
               filter (\<lambda>c. forRelation q = Ancestor \<and> id' c \<noteq> resourceId q \<and>
                            id' c \<notin> set (excluded q)) [n1]
         in GetReturns (Some \<lparr>CandidateSearchResult.networks = candidates,
                               alreadyTried = excluded q @ map id' candidates\<rparr>)),
      web3 = (\<lambda>h n. if n = 100 then Web3Result (Some ''0xaa'') else Web3Result None),
      loader = (\<lambda>h gs. LoadReturns [])\<rparr>"

text \<open>The same store, on a chain that has no block anywhere.\<close>

definition unconfirmedStore :: interpreter where
  "unconfirmedStore = knownStore\<lparr>web3 := \<lambda>h n. Web3Result None\<rparr>"

text \<open>A store that proposes \<open>n1\<close> as a relative of every network, \<open>n1\<close> included.\<close>

definition selfStore :: interpreter where
  "selfStore =
     \<lparr>graphql = (\<lambda>h q. GetReturns
         (Some \<lparr>CandidateSearchResult.networks = [n1], alreadyTried = excluded q @ [''n1'']\<rparr>)),
      web3 = (\<lambda>h n. Web3Result (Some ''0xaa'')),
      loader = (\<lambda>h gs. LoadReturns [])\<rparr>"

text \<open>A candidate whose hash is recorded in upper case, and a chain that reports lower case.\<close>

definition upperCandidate :: Network where
  "upperCandidate = \<lparr>id' = ''n1'', historicBlock = \<lparr>hash = ''0xAA'', height = 100\<rparr>\<rparr>"

definition lowerChain :: "int \<Rightarrow> web3_response" where
  "lowerChain h = (if h = 100 then Web3Result (Some ''0xaa'') else Web3Result None)"

text \<open>A chain whose block 100 is not the one \<open>n1\<close> records, while \<open>n2\<close> and \<open>n3\<close> are on it.\<close>

definition forkedChain :: "int \<Rightarrow> web3_response" where
  "forkedChain h =
     (if h = 100 then Web3Result (Some ''0xff'')
      else if h = 200 then Web3Result (Some ''0xbb'')
      else if h = 300 then Web3Result (Some ''0xcc'')
      else Web3Result None)"

text \<open>A chain client with no block at height 100 that fails to answer for height 200.\<close>

definition brokenChain :: "int \<Rightarrow> web3_response" where
  "brokenChain h =
     (if h = 100 then Web3Result None else if h = 200 then Web3Throws else Web3Undefined)"

section \<open>Properties of the Lineage Collector\<close>

lemma IdObject_eq_iff: "(a :: IdObject) = b \<longleftrightarrow> id' a = id' b"
  by (cases a, cases b) simp

text \<open>
  The reduction over resources: the genealogies are the adjacent pairs of the sorted
  list whose ids differ.
\<close>

lemma foldl_reducer_filter:
  "snd (foldl reducer (toIdObject r, gs) (map toIdObject rs)) =
     gs @ map (\<lambda>(a, d). \<lparr>ancestor = toIdObject a, descendant = toIdObject d\<rparr>)
            (filter (\<lambda>(a, d). id' a \<noteq> id' d) (zip (r # rs) rs))"
proof (induction rs arbitrary: r gs)
  case Nil
  show ?case by simp
next
  case (Cons x xs)
  have step: "reducer (toIdObject r, gs) (toIdObject x) =
      (toIdObject x,
       if id' r = id' x then gs
       else gs @ [\<lparr>ancestor = toIdObject r, descendant = toIdObject x\<rparr>])"
    by (simp add: reducer_def toIdObject_def)
  show ?case
    by (simp add: step Cons.IH)
qed

text \<open>The same reduction, seen on the references: duplicates collapse, nothing else does.\<close>

lemma foldl_reducer_remdups:
  "snd (foldl reducer (a, gs) xs) =
     gs @ map (\<lambda>(x, y). \<lparr>ancestor = x, descendant = y\<rparr>)
            (zip (remdups_adj (a # xs)) (tl (remdups_adj (a # xs))))"
proof (induction xs arbitrary: a gs)
  case Nil
  show ?case by simp
next
  case (Cons x xs)
  show ?case
  proof (cases "a = x")
    case True
    then have "reducer (a, gs) x = (x, gs)" by (simp add: reducer_def)
    with True show ?thesis by (simp add: Cons.IH)
  next
    case False
    then have ne: "id' a \<noteq> id' x" by (simp add: IdObject_eq_iff)
    then have r: "reducer (a, gs) x = (x, gs @ [\<lparr>ancestor = a, descendant = x\<rparr>])"
      by (simp add: reducer_def)
    obtain ys where ys: "remdups_adj (x # xs) = x # ys"
      by (metis remdups_adj_Cons')
    from False r ys show ?thesis
      by (simp add: Cons.IH)
  qed
qed

lemma collect_networks_eq:
  "Collected.networks (collectNetworks options) = map toIdObject (sortedResources options)"
  by (simp add: collectNetworks_def Let_def split: list.splits)

lemma collect_genealogies_eq:
  "networkGenealogies (collectNetworks options) =
     map (\<lambda>(a, d). \<lparr>ancestor = toIdObject a, descendant = toIdObject d\<rparr>)
       (filter (\<lambda>(a, d). id' a \<noteq> id' d)
          (zip (sortedResources options) (tl (sortedResources options))))"
proof (cases "sortedResources options")
  case Nil
  then show ?thesis by (simp add: collectNetworks_def Let_def)
next
  case (Cons r rs)
  then show ?thesis
    using foldl_reducer_filter [of r "[]" rs]
    by (simp add: collectNetworks_def Let_def)
qed

lemma sorted_zip_tl:
  "sorted (map f xs) \<Longrightarrow> (a, d) \<in> set (zip xs (tl xs)) \<Longrightarrow> f a \<le> f d"
proof (induction xs)
  case Nil
  then show ?case by simp
next
  case (Cons x xs)
  then show ?case
    by (cases xs) auto
qed

lemma sortedResources_sorted:
  "sorted (map (\<lambda>n. height (historicBlock n)) (sortedResources options))"
  by (simp add: sortedResources_def)

lemma sortedResources_mset:
  "mset (sortedResources options) = mset (present (Options.networks options))"
  by (simp add: sortedResources_def)

lemma sparseBatch_sorted: "sortedResources sparseBatch = [n1, n1, n2]"
  by (simp add: sortedResources_def sparseBatch_def n1_def n2_def)

text \<open>
  C3. For every sparse batch, the networks that \<^verbatim>\<open>collectNetworks\<close> returns are the
  references of the present entries of the batch (all of them, and nothing else), in
  ascending order of \<^verbatim>\<open>historicBlock.height\<close>; and every pairwise genealogy it returns
  links two different ids, and refers to two entries of the batch of which the ancestor's
  height is at most the descendant's.
\<close>

theorem collectNetworks_sorted_edges:
  "sorted (map (\<lambda>n. height (historicBlock n)) (sortedResources options)) \<and>
   mset (sortedResources options) = mset (present (Options.networks options)) \<and>
   Collected.networks (collectNetworks options) = map toIdObject (sortedResources options) \<and>
   (\<forall>e \<in> set (networkGenealogies (collectNetworks options)).
      id' (ancestor e) \<noteq> id' (descendant e) \<and>
      (\<exists>a d. (a, d) \<in> set (zip (sortedResources options) (tl (sortedResources options))) \<and>
         ancestor e = toIdObject a \<and> descendant e = toIdObject d \<and>
         height (historicBlock a) \<le> height (historicBlock d) \<and> id' a \<noteq> id' d))"
proof (intro conjI ballI)
  show "sorted (map (\<lambda>n. height (historicBlock n)) (sortedResources options))"
    by (rule sortedResources_sorted)
  show "mset (sortedResources options) = mset (present (Options.networks options))"
    by (rule sortedResources_mset)
  show "Collected.networks (collectNetworks options) = map toIdObject (sortedResources options)"
    by (rule collect_networks_eq)
next
  fix e assume "e \<in> set (networkGenealogies (collectNetworks options))"
  then obtain a d
    where ad: "(a, d) \<in> set (zip (sortedResources options) (tl (sortedResources options)))"
      and ne: "id' a \<noteq> id' d"
      and e: "e = \<lparr>ancestor = toIdObject a, descendant = toIdObject d\<rparr>"
    by (auto simp: collect_genealogies_eq)
  have le: "height (historicBlock a) \<le> height (historicBlock d)"
    using sorted_zip_tl [OF sortedResources_sorted ad] .
  show "id' (ancestor e) \<noteq> id' (descendant e)"
    using e ne by (simp add: toIdObject_def)
  show "\<exists>a d. (a, d) \<in> set (zip (sortedResources options) (tl (sortedResources options))) \<and>
         ancestor e = toIdObject a \<and> descendant e = toIdObject d \<and>
         height (historicBlock a) \<le> height (historicBlock d) \<and> id' a \<noteq> id' d"
    using ad ne e le by auto
qed

theorem collectNetworks_sorted_edges_witness:
  "Collected.networks (collectNetworks sparseBatch) =
     [\<lparr>id' = ''n1''\<rparr>, \<lparr>id' = ''n1''\<rparr>, \<lparr>id' = ''n2''\<rparr>] \<and>
   \<lparr>ancestor = \<lparr>id' = ''n1''\<rparr>, descendant = \<lparr>id' = ''n2''\<rparr>\<rparr>
     \<in> set (networkGenealogies (collectNetworks sparseBatch)) \<and>
   id' (ancestor \<lparr>ancestor = \<lparr>id' = ''n1''\<rparr>, descendant = \<lparr>id' = ''n2''\<rparr>\<rparr>) \<noteq>
   id' (descendant \<lparr>ancestor = \<lparr>id' = ''n1''\<rparr>, descendant = \<lparr>id' = ''n2''\<rparr>\<rparr>)"
proof -
  note T = collectNetworks_sorted_edges [of sparseBatch]
  have mem: "\<lparr>ancestor = \<lparr>id' = ''n1''\<rparr>, descendant = \<lparr>id' = ''n2''\<rparr>\<rparr>
      \<in> set (networkGenealogies (collectNetworks sparseBatch))"
    by (simp add: collect_genealogies_eq sparseBatch_sorted toIdObject_def n1_def n2_def)
  from T have "Collected.networks (collectNetworks sparseBatch) =
      map toIdObject (sortedResources sparseBatch)"
    by blast
  then have nets: "Collected.networks (collectNetworks sparseBatch) =
      [\<lparr>id' = ''n1''\<rparr>, \<lparr>id' = ''n1''\<rparr>, \<lparr>id' = ''n2''\<rparr>]"
    by (simp add: sparseBatch_sorted toIdObject_def n1_def n2_def)
  from T mem
  have ne: "id' (ancestor \<lparr>ancestor = \<lparr>id' = ''n1''\<rparr>, descendant = \<lparr>id' = ''n2''\<rparr>\<rparr>) \<noteq>
      id' (descendant \<lparr>ancestor = \<lparr>id' = ''n1''\<rparr>, descendant = \<lparr>id' = ''n2''\<rparr>\<rparr>)"
    by blast
  from nets mem ne show ?thesis by blast
qed

text \<open>
  C4. The pairwise genealogies are exactly the consecutive pairs of the returned
  references once adjacent duplicates are collapsed: adjacent entries with the same id
  give no genealogy, and every entry is linked to the next entry with a different id.
\<close>

theorem collectNetworks_collapses_duplicates:
  "networkGenealogies (collectNetworks options) =
     map (\<lambda>(a, d). \<lparr>ancestor = a, descendant = d\<rparr>)
       (zip (remdups_adj (Collected.networks (collectNetworks options)))
            (tl (remdups_adj (Collected.networks (collectNetworks options)))))"
proof (cases "map toIdObject (sortedResources options)")
  case Nil
  then show ?thesis by (simp add: collectNetworks_def Let_def)
next
  case (Cons a xs)
  then show ?thesis
    using foldl_reducer_remdups [of a "[]" xs]
    by (simp add: collectNetworks_def Let_def)
qed

text \<open>
  The batch \<open>[n2, absent, n1, n1]\<close> is sorted to \<open>[n1, n1, n2]\<close> and gives exactly the
  genealogy from \<open>n1\<close> to \<open>n2\<close>.
\<close>

theorem collectNetworks_collapses_duplicates_witness:
  "networkGenealogies (collectNetworks sparseBatch) =
     [\<lparr>ancestor = \<lparr>id' = ''n1''\<rparr>, descendant = \<lparr>id' = ''n2''\<rparr>\<rparr>]"
proof -
  have nets: "Collected.networks (collectNetworks sparseBatch) =
      [\<lparr>id' = ''n1''\<rparr>, \<lparr>id' = ''n1''\<rparr>, \<lparr>id' = ''n2''\<rparr>]"
    by (simp add: collect_networks_eq sparseBatch_sorted toIdObject_def n1_def n2_def)
  show ?thesis
    using collectNetworks_collapses_duplicates [of sparseBatch]
    by (simp add: nets)
qed

text \<open>Two entries with the same id and the same height give no genealogy.\<close>

lemma collectNetworks_duplicate_pair:
  "networkGenealogies
     (collectNetworks \<lparr>Options.networks = [Some n1, Some n1], disableIndex = False\<rparr>) = []"
  by (simp add: collectNetworks_def sortedResources_def reducer_def toIdObject_def n1_def)

section \<open>Properties of the Chain Validator\<close>

lemma getRequests_append: "getRequests (xs @ ys) = getRequests xs @ getRequests ys"
  by (induction xs rule: getRequests.induct) simp_all

lemma answeredTried_append: "answeredTried (xs @ ys) = answeredTried xs @ answeredTried ys"
  by (induction xs rule: answeredTried.induct) simp_all

lemma loads_append: "loads (xs @ ys) = loads xs @ loads ys"
  by (induction xs rule: loads.induct) simp_all

lemma newEvents_append: "history s' = history s @ es \<Longrightarrow> newEvents s s' = es"
  by (simp add: newEvents_def)

text \<open>The validator issues chain queries and nothing else.\<close>

lemma fmc_events:
  "\<exists>ws. history (snd (findMatchingCandidateOnChain I cs s)) = history s @ ws \<and>
        getRequests ws = [] \<and> answeredTried ws = [] \<and> loads ws = []"
proof (induction cs arbitrary: s)
  case Nil
  show ?case by simp
next
  case (Cons c cs)
  let ?h = "height (historicBlock c)"
  let ?r = "web3 I (history s) ?h"
  let ?s = "s\<lparr>history := history s @ [Web3 ?h ?r]\<rparr>"
  from Cons.IH [of ?s] obtain ws where
    ws: "history (snd (findMatchingCandidateOnChain I cs ?s)) = history s @ Web3 ?h ?r # ws"
      "getRequests ws = []" "answeredTried ws = []" "loads ws = []"
    by auto
  have stop: "\<exists>ws. history ?s = history s @ ws \<and>
        getRequests ws = [] \<and> answeredTried ws = [] \<and> loads ws = []"
    by simp
  have cont: "\<exists>ws. history (snd (findMatchingCandidateOnChain I cs ?s)) = history s @ ws \<and>
        getRequests ws = [] \<and> answeredTried ws = [] \<and> loads ws = []"
    using ws by simp
  show ?case
  proof (cases ?r)
    case Web3Throws
    with stop show ?thesis by simp
  next
    case Web3Undefined
    with cont show ?thesis by simp
  next
    case (Web3Result r)
    with stop cont show ?thesis
      by (cases r) (simp_all add: Let_def)
  qed
qed

lemma fmc_events':
  assumes "findMatchingCandidateOnChain I cs s = (r, s')"
  shows "\<exists>ws. history s' = history s @ ws \<and>
        getRequests ws = [] \<and> answeredTried ws = [] \<and> loads ws = []"
  using fmc_events [of I cs s] assms by simp

text \<open>A returned candidate is one of the list, and the last chain query confirmed it.\<close>

lemma fmc_match:
  assumes "findMatchingCandidateOnChain I cs s = (Inr (Some m), s')"
  shows "\<exists>c \<in> set cs. m = toIdObject c \<and>
           (\<exists>pre. history s' = history s @ pre @
              [Web3 (height (historicBlock c)) (Web3Result (Some (hash (historicBlock c))))])"
  using assms
proof (induction cs arbitrary: s)
  case Nil
  then show ?case by simp
next
  case (Cons c cs)
  let ?h = "height (historicBlock c)"
  let ?r = "web3 I (history s) ?h"
  let ?s = "s\<lparr>history := history s @ [Web3 ?h ?r]\<rparr>"
  have rec: "findMatchingCandidateOnChain I cs ?s = (Inr (Some m), s') \<Longrightarrow> ?case"
  proof -
    assume "findMatchingCandidateOnChain I cs ?s = (Inr (Some m), s')"
    from Cons.IH [OF this] obtain c' pre where
      "c' \<in> set cs" "m = toIdObject c'"
      "history s' = history ?s @ pre @
         [Web3 (height (historicBlock c')) (Web3Result (Some (hash (historicBlock c'))))]"
      by blast
    then have "c' \<in> set (c # cs) \<and> m = toIdObject c' \<and>
       history s' = history s @ (Web3 ?h ?r # pre) @
         [Web3 (height (historicBlock c')) (Web3Result (Some (hash (historicBlock c'))))]"
      by simp
    then show ?case by blast
  qed
  show ?case
  proof (cases ?r)
    case Web3Throws
    with Cons.prems show ?thesis by simp
  next
    case Web3Undefined
    with Cons.prems rec show ?thesis by simp
  next
    case (Web3Result r)
    show ?thesis
    proof (cases r)
      case None
      with Web3Result Cons.prems rec show ?thesis by simp
    next
      case (Some b)
      show ?thesis
      proof (cases "b = hash (historicBlock c)")
        case True
        with Some Web3Result Cons.prems
        have "m = toIdObject c" and "history s' = history s @ [] @ [Web3 ?h (Web3Result (Some (hash (historicBlock c))))]"
          by auto
        then show ?thesis by (metis list.set_intros(1))
      next
        case False
        with Some Web3Result Cons.prems rec show ?thesis by simp
      qed
    qed
  qed
qed

text \<open>The validator raises nothing but the failure of the chain client.\<close>

lemma fmc_error:
  "findMatchingCandidateOnChain I cs s = (Inl e, s') \<Longrightarrow> e = ChainQueryError"
proof (induction cs arbitrary: s)
  case Nil
  then show ?case by simp
next
  case (Cons c cs)
  then show ?case
    by (auto simp: Let_def split: web3_response.splits option.splits if_splits)
qed

text \<open>A chain query that failed ends the validation with that failure.\<close>

lemma no_requests_no_Get: "getRequests es = [] \<Longrightarrow> Get q x \<notin> set es"
  by (induction es rule: getRequests.induct) auto

lemma fmc_throws:
  assumes "findMatchingCandidateOnChain I cs s = (r, s')"
    and "history s' = history s @ ws"
    and "Web3 h Web3Throws \<in> set ws"
  shows "r = Inl ChainQueryError"
  using assms
proof (induction cs arbitrary: s ws)
  case Nil
  then show ?case by simp
next
  case (Cons c cs)
  let ?h = "height (historicBlock c)"
  let ?r = "web3 I (history s) ?h"
  let ?s = "s\<lparr>history := history s @ [Web3 ?h ?r]\<rparr>"
  show ?case
  proof (cases "?r = Web3Throws")
    case True
    with Cons.prems(1) show ?thesis by simp
  next
    case False
    obtain r1 s1 where rec: "findMatchingCandidateOnChain I cs ?s = (r1, s1)"
      by (cases "findMatchingCandidateOnChain I cs ?s")
    from fmc_events' [OF rec] obtain ws' where ws': "history s1 = history ?s @ ws'"
      by blast
    show ?thesis
    proof (cases "s' = s1 \<and> r = r1")
      case True
      from rec True have rec': "findMatchingCandidateOnChain I cs ?s = (r, s')" by simp
      from ws' True have h': "history s' = history ?s @ ws'" by simp
      with Cons.prems(2) have "ws = Web3 ?h ?r # ws'" by simp
      with Cons.prems(3) False have "Web3 h Web3Throws \<in> set ws'" by auto
      from Cons.IH [OF rec' h' this] show ?thesis .
    next
      case stop: False
      with Cons.prems(1) rec False
      have "s' = ?s"
        by (auto simp: Let_def split: web3_response.splits option.splits if_splits)
      with Cons.prems(2) have "ws = [Web3 ?h ?r]" by simp
      with Cons.prems(3) False show ?thesis by simp
    qed
  qed
qed

text \<open>
  C5. On a chain that answers every query of the candidates' heights, the validator
  returns the first candidate of the list whose recorded hash is the hash of the chain's
  block at the candidate's height, and nothing if there is none; it queries the
  candidates in order up to and including that first match, and no candidate after it.
\<close>

theorem findMatchingCandidateOnChain_first_match:
  assumes "\<forall>c \<in> set candidates. chain (height (historicBlock c)) \<noteq> Web3Throws"
  shows "findMatchingCandidateOnChain (I\<lparr>web3 := \<lambda>h. chain\<rparr>) candidates s =
    (Inr (map_option toIdObject
       (find (\<lambda>c. chain (height (historicBlock c)) = Web3Result (Some (hash (historicBlock c))))
          candidates)),
     s\<lparr>history := history s @
        map (\<lambda>c. Web3 (height (historicBlock c)) (chain (height (historicBlock c))))
          (takeWhile (\<lambda>c. chain (height (historicBlock c)) \<noteq> Web3Result (Some (hash (historicBlock c))))
             candidates @
           take 1 (dropWhile (\<lambda>c. chain (height (historicBlock c)) \<noteq> Web3Result (Some (hash (historicBlock c))))
             candidates))\<rparr>)"
  using assms
proof (induction candidates arbitrary: s)
  case Nil
  show ?case by simp
next
  case (Cons c cs)
  then have IH: "\<And>s. findMatchingCandidateOnChain (I\<lparr>web3 := \<lambda>h. chain\<rparr>) cs s =
    (Inr (map_option toIdObject
       (find (\<lambda>c. chain (height (historicBlock c)) = Web3Result (Some (hash (historicBlock c)))) cs)),
     s\<lparr>history := history s @
        map (\<lambda>c. Web3 (height (historicBlock c)) (chain (height (historicBlock c))))
          (takeWhile (\<lambda>c. chain (height (historicBlock c)) \<noteq> Web3Result (Some (hash (historicBlock c)))) cs @
           take 1 (dropWhile (\<lambda>c. chain (height (historicBlock c)) \<noteq> Web3Result (Some (hash (historicBlock c)))) cs))\<rparr>)"
    by simp
  from Cons.prems have nt: "chain (height (historicBlock c)) \<noteq> Web3Throws" by simp
  show ?case
  proof (cases "chain (height (historicBlock c))")
    case Web3Throws
    with nt show ?thesis by simp
  next
    case Web3Undefined
    then show ?thesis by (simp add: IH)
  next
    case (Web3Result r)
    then show ?thesis
      by (cases r) (auto simp: IH)
  qed
qed

text \<open>Of \<open>n1\<close> (not on the chain), \<open>n2\<close> and \<open>n3\<close> (both on it), the validator returns \<open>n2\<close>.\<close>

theorem findMatchingCandidateOnChain_first_match_witness:
  "findMatchingCandidateOnChain (quietStore\<lparr>web3 := \<lambda>h. forkedChain\<rparr>) [n1, n2, n3] initialState =
     (Inr (Some \<lparr>id' = ''n2''\<rparr>),
      initialState\<lparr>history :=
        [Web3 100 (Web3Result (Some ''0xff'')), Web3 200 (Web3Result (Some ''0xbb''))]\<rparr>)"
proof -
  have answers: "\<forall>c \<in> set [n1, n2, n3]. forkedChain (height (historicBlock c)) \<noteq> Web3Throws"
    by (simp add: forkedChain_def n1_def n2_def n3_def)
  show ?thesis
    using findMatchingCandidateOnChain_first_match [OF answers, of quietStore initialState]
    by (simp add: forkedChain_def n1_def n2_def n3_def toIdObject_def initialState_def)
qed

text \<open>Candidates whose block the chain does not have are passed over, one query each.\<close>

lemma fmc_skip:
  assumes "\<forall>c \<in> set pre. chain (height (historicBlock c)) = Web3Undefined \<or>
             chain (height (historicBlock c)) = Web3Result None"
  shows "findMatchingCandidateOnChain (I\<lparr>web3 := \<lambda>h. chain\<rparr>) (pre @ rest) s =
         findMatchingCandidateOnChain (I\<lparr>web3 := \<lambda>h. chain\<rparr>) rest
           (s\<lparr>history := history s @
              map (\<lambda>c. Web3 (height (historicBlock c)) (chain (height (historicBlock c)))) pre\<rparr>)"
  using assms
proof (induction pre arbitrary: s)
  case Nil
  show ?case by simp
next
  case (Cons c cs)
  then have IH: "\<And>s. findMatchingCandidateOnChain (I\<lparr>web3 := \<lambda>h. chain\<rparr>) (cs @ rest) s =
         findMatchingCandidateOnChain (I\<lparr>web3 := \<lambda>h. chain\<rparr>) rest
           (s\<lparr>history := history s @
              map (\<lambda>c. Web3 (height (historicBlock c)) (chain (height (historicBlock c)))) cs\<rparr>)"
    by simp
  from Cons.prems
  have "chain (height (historicBlock c)) = Web3Undefined \<or> chain (height (historicBlock c)) = Web3Result None"
    by simp
  then show ?case
    by (auto simp: IH)
qed

text \<open>
  C8. A chain query that finds no block (a falsy response, or a \<^verbatim>\<open>null\<close> result) is a
  non-match: the validator goes on with the next candidate, and returns nothing, without
  an error, when no candidate is left. A chain query that fails ends the validation
  with \<open>ChainQueryError\<close>, and no later candidate is queried.
\<close>

theorem findMatchingCandidateOnChain_missing_block_or_failure:
  assumes "\<forall>c \<in> set pre. chain (height (historicBlock c)) = Web3Undefined \<or>
             chain (height (historicBlock c)) = Web3Result None"
  shows "findMatchingCandidateOnChain (I\<lparr>web3 := \<lambda>h. chain\<rparr>) (pre @ rest) s =
           findMatchingCandidateOnChain (I\<lparr>web3 := \<lambda>h. chain\<rparr>) rest
             (s\<lparr>history := history s @
                map (\<lambda>c. Web3 (height (historicBlock c)) (chain (height (historicBlock c)))) pre\<rparr>) \<and>
         findMatchingCandidateOnChain (I\<lparr>web3 := \<lambda>h. chain\<rparr>) pre s =
           (Inr None,
            s\<lparr>history := history s @
               map (\<lambda>c. Web3 (height (historicBlock c)) (chain (height (historicBlock c)))) pre\<rparr>) \<and>
         (chain (height (historicBlock c)) = Web3Throws \<longrightarrow>
            findMatchingCandidateOnChain (I\<lparr>web3 := \<lambda>h. chain\<rparr>) (pre @ c # rest) s =
              (Inl ChainQueryError,
               s\<lparr>history := history s @
                  map (\<lambda>c. Web3 (height (historicBlock c)) (chain (height (historicBlock c)))) pre @
                  [Web3 (height (historicBlock c)) Web3Throws]\<rparr>))"
proof (intro conjI impI)
  show "findMatchingCandidateOnChain (I\<lparr>web3 := \<lambda>h. chain\<rparr>) (pre @ rest) s =
           findMatchingCandidateOnChain (I\<lparr>web3 := \<lambda>h. chain\<rparr>) rest
             (s\<lparr>history := history s @
                map (\<lambda>c. Web3 (height (historicBlock c)) (chain (height (historicBlock c)))) pre\<rparr>)"
    by (rule fmc_skip [OF assms])
  show "findMatchingCandidateOnChain (I\<lparr>web3 := \<lambda>h. chain\<rparr>) pre s =
           (Inr None,
            s\<lparr>history := history s @
               map (\<lambda>c. Web3 (height (historicBlock c)) (chain (height (historicBlock c)))) pre\<rparr>)"
    using fmc_skip [OF assms, of I "[]" s] by simp
next
  assume "chain (height (historicBlock c)) = Web3Throws"
  then show "findMatchingCandidateOnChain (I\<lparr>web3 := \<lambda>h. chain\<rparr>) (pre @ c # rest) s =
              (Inl ChainQueryError,
               s\<lparr>history := history s @
                  map (\<lambda>c. Web3 (height (historicBlock c)) (chain (height (historicBlock c)))) pre @
                  [Web3 (height (historicBlock c)) Web3Throws]\<rparr>)"
    using fmc_skip [OF assms, of I "c # rest" s] by simp
qed

theorem findMatchingCandidateOnChain_missing_block_or_failure_witness:
  "findMatchingCandidateOnChain (quietStore\<lparr>web3 := \<lambda>h. brokenChain\<rparr>) [n1, n2, n3] initialState =
     (Inl ChainQueryError,
      initialState\<lparr>history := [Web3 100 (Web3Result None), Web3 200 Web3Throws]\<rparr>) \<and>
   findMatchingCandidateOnChain (quietStore\<lparr>web3 := \<lambda>h. brokenChain\<rparr>) [n1] initialState =
     (Inr None, initialState\<lparr>history := [Web3 100 (Web3Result None)]\<rparr>)"
proof -
  have missing: "\<forall>c \<in> set [n1]. brokenChain (height (historicBlock c)) = Web3Undefined \<or>
      brokenChain (height (historicBlock c)) = Web3Result None"
    by (simp add: brokenChain_def n1_def)
  have fails: "brokenChain (height (historicBlock n2)) = Web3Throws"
    by (simp add: brokenChain_def n2_def)
  show ?thesis
    using findMatchingCandidateOnChain_missing_block_or_failure
            [OF missing, of quietStore "[n3]" initialState n2] fails
    by (simp add: brokenChain_def n1_def n2_def initialState_def)
qed

text \<open>
  C10, as the code has it. The recorded hash and the hash that the chain reports are
  compared as they are, with \<^verbatim>\<open>===\<close>: a single candidate is confirmed exactly when the
  chain answers with a block whose hash is the very string the candidate records. A
  hash that differs in the case of its letters is no match.
\<close>

theorem findMatchingCandidateOnChain_exact_hash:
  "fst (findMatchingCandidateOnChain I [c] s) = Inr (Some (toIdObject c)) \<longleftrightarrow>
   web3 I (history s) (height (historicBlock c)) = Web3Result (Some (hash (historicBlock c)))"
  by (simp add: Let_def split: web3_response.splits option.splits)

theorem findMatchingCandidateOnChain_exact_hash_witness:
  "fst (findMatchingCandidateOnChain (quietStore\<lparr>web3 := \<lambda>h. forkedChain\<rparr>) [n2] initialState) =
     Inr (Some \<lparr>id' = ''n2''\<rparr>)"
proof -
  have "web3 (quietStore\<lparr>web3 := \<lambda>h. forkedChain\<rparr>) (history initialState)
          (height (historicBlock n2)) = Web3Result (Some (hash (historicBlock n2)))"
    by (simp add: forkedChain_def n2_def)
  then have "fst (findMatchingCandidateOnChain (quietStore\<lparr>web3 := \<lambda>h. forkedChain\<rparr>) [n2]
      initialState) = Inr (Some (toIdObject n2))"
    by (rule findMatchingCandidateOnChain_exact_hash [THEN iffD2])
  then show ?thesis by (simp add: toIdObject_def n2_def)
qed

text \<open>
  The candidate records \<open>0xAA\<close> and the chain reports \<open>0xaa\<close> at its height: the
  validator returns nothing.
\<close>

theorem hash_comparison_not_normalized:
  "fst (findMatchingCandidateOnChain (quietStore\<lparr>web3 := \<lambda>h. lowerChain\<rparr>) [upperCandidate]
     initialState) = Inr None"
  by (simp add: lowerChain_def upperCandidate_def)

section \<open>Properties of Candidate Search\<close>

text \<open>The ways one iteration of the loop of \<^verbatim>\<open>findRelation\<close> can go.\<close>

lemma frl_Suc_cases:
  assumes "findRelationLoop (Suc fuel) I rel network disable tried s = (r, s')"
  obtains
    (queryFails) e where
      "queryNextPossiblyRelatedNetworks I rel network tried disable s = (Inl e, s')"
      "r = Some (Inl e)"
  | (chainFails) result s1 e where
      "queryNextPossiblyRelatedNetworks I rel network tried disable s = (Inr result, s1)"
      "findMatchingCandidateOnChain I (CandidateSearchResult.networks result) s1 = (Inl e, s')"
      "r = Some (Inl e)"
  | (found) result s1 m where
      "queryNextPossiblyRelatedNetworks I rel network tried disable s = (Inr result, s1)"
      "findMatchingCandidateOnChain I (CandidateSearchResult.networks result) s1 = (Inr (Some m), s')"
      "r = Some (Inr (Some m))"
  | (exhausted) result s1 where
      "queryNextPossiblyRelatedNetworks I rel network tried disable s = (Inr result, s1)"
      "findMatchingCandidateOnChain I (CandidateSearchResult.networks result) s1 = (Inr None, s')"
      "CandidateSearchResult.networks result = []"
      "r = Some (Inr None)"
  | (again) result s1 s2 where
      "queryNextPossiblyRelatedNetworks I rel network tried disable s = (Inr result, s1)"
      "findMatchingCandidateOnChain I (CandidateSearchResult.networks result) s1 = (Inr None, s2)"
      "CandidateSearchResult.networks result \<noteq> []"
      "findRelationLoop fuel I rel network disable (alreadyTried result) s2 = (r, s')"
  using assms
  by (auto split: prod.splits sum.splits option.splits if_splits)

text \<open>What a query that returns has asked and recorded, and what a failed one has.\<close>

lemma query_ok:
  assumes "queryNextPossiblyRelatedNetworks I rel network tried disable s = (Inr result, s1)"
  shows "\<exists>n q. network = Some n \<and> resourceId q = id' n \<and> excluded q = tried \<and>
           graphql I (history s) q = GetReturns (Some result) \<and>
           history s1 = history s @ [Get q (GetReturns (Some result))]"
proof (cases network)
  case None
  with assms show ?thesis by (simp add: queryNextPossiblyRelatedNetworks_def)
next
  case (Some n)
  let ?q = "\<lparr>resourceId = id' n, forRelation = rel, fragment = fragmentIndex s,
             excluded = tried, indexDisabled = disable\<rparr>"
  from assms Some
  have "graphql I (history s) ?q = GetReturns (Some result) \<and>
        history s1 = history s @ [Get ?q (GetReturns (Some result))]"
    by (auto simp: queryNextPossiblyRelatedNetworks_def Let_def
          split: get_response.splits option.splits)
  then have "network = Some n \<and> resourceId ?q = id' n \<and> excluded ?q = tried \<and>
      graphql I (history s) ?q = GetReturns (Some result) \<and>
      history s1 = history s @ [Get ?q (GetReturns (Some result))]"
    using Some by simp
  then show ?thesis by blast
qed

lemma query_fail:
  assumes "queryNextPossiblyRelatedNetworks I rel network tried disable s = (Inl e, s1)"
  shows "e = TypeError \<and>
         (history s1 = history s \<or>
          (\<exists>q r. excluded q = tried \<and> history s1 = history s @ [Get q r] \<and>
              (\<forall>result. r \<noteq> GetReturns (Some result))))"
proof (cases network)
  case None
  with assms show ?thesis by (simp add: queryNextPossiblyRelatedNetworks_def)
next
  case (Some n)
  let ?q = "\<lparr>resourceId = id' n, forRelation = rel, fragment = fragmentIndex s,
             excluded = tried, indexDisabled = disable\<rparr>"
  from assms Some
  have "e = TypeError \<and> history s1 = history s @ [Get ?q (graphql I (history s) ?q)] \<and>
        (\<forall>result. graphql I (history s) ?q \<noteq> GetReturns (Some result))"
    by (auto simp: queryNextPossiblyRelatedNetworks_def Let_def
          split: get_response.splits option.splits)
  then have "e = TypeError \<and> excluded ?q = tried \<and>
      history s1 = history s @ [Get ?q (graphql I (history s) ?q)] \<and>
      (\<forall>result. graphql I (history s) ?q \<noteq> GetReturns (Some result))"
    by simp
  then show ?thesis by blast
qed

text \<open>
  A search loads nothing, and the exclusion lists it sends are the list it started with
  followed by the lists the store answered.
\<close>

lemma frl_events:
  assumes "findRelationLoop fuel I rel network disable tried s = (r, s')"
  shows "\<exists>es. history s' = history s @ es \<and> loads es = [] \<and>
           map excluded (getRequests es) =
             take (length (getRequests es)) (tried # answeredTried es)"
  using assms
proof (induction fuel arbitrary: tried s)
  case 0
  then show ?case by simp
next
  case (Suc fuel)
  from Suc.prems show ?case
  proof (cases rule: frl_Suc_cases)
    case (queryFails e)
    from query_fail [OF queryFails(1)] consider
      (silent) "history s' = history s"
    | (asked) q r where "excluded q = tried" "history s' = history s @ [Get q r]"
        "\<forall>result. r \<noteq> GetReturns (Some result)"
      by blast
    then show ?thesis
    proof cases
      case silent
      then have "history s' = history s @ [] \<and> loads [] = [] \<and>
          map excluded (getRequests []) = take (length (getRequests [])) (tried # answeredTried [])"
        by simp
      then show ?thesis by blast
    next
      case asked
      from asked(3) have "answeredTried [Get q r] = []"
        by (cases r) (auto split: option.splits)
      with asked have "history s' = history s @ [Get q r] \<and> loads [Get q r] = [] \<and>
          map excluded (getRequests [Get q r]) =
            take (length (getRequests [Get q r])) (tried # answeredTried [Get q r])"
        by simp
      then show ?thesis by blast
    qed
  next
    case (chainFails result s1 e)
    from query_ok [OF chainFails(1)] obtain q where
      q: "excluded q = tried" "history s1 = history s @ [Get q (GetReturns (Some result))]"
      by blast
    from fmc_events' [OF chainFails(2)] obtain ws where
      ws: "history s' = history s1 @ ws" "getRequests ws = []" "answeredTried ws = []" "loads ws = []"
      by blast
    let ?es = "Get q (GetReturns (Some result)) # ws"
    have "history s' = history s @ ?es" using q ws by simp
    moreover have "loads ?es = []" using ws by simp
    moreover have "map excluded (getRequests ?es) =
             take (length (getRequests ?es)) (tried # answeredTried ?es)"
      using q ws by simp
    ultimately show ?thesis by blast
  next
    case (found result s1 m)
    from query_ok [OF found(1)] obtain q where
      q: "excluded q = tried" "history s1 = history s @ [Get q (GetReturns (Some result))]"
      by blast
    from fmc_events' [OF found(2)] obtain ws where
      ws: "history s' = history s1 @ ws" "getRequests ws = []" "answeredTried ws = []" "loads ws = []"
      by blast
    let ?es = "Get q (GetReturns (Some result)) # ws"
    have "history s' = history s @ ?es" using q ws by simp
    moreover have "loads ?es = []" using ws by simp
    moreover have "map excluded (getRequests ?es) =
             take (length (getRequests ?es)) (tried # answeredTried ?es)"
      using q ws by simp
    ultimately show ?thesis by blast
  next
    case (exhausted result s1)
    from query_ok [OF exhausted(1)] obtain q where
      q: "excluded q = tried" "history s1 = history s @ [Get q (GetReturns (Some result))]"
      by blast
    from fmc_events' [OF exhausted(2)] obtain ws where
      ws: "history s' = history s1 @ ws" "getRequests ws = []" "answeredTried ws = []" "loads ws = []"
      by blast
    let ?es = "Get q (GetReturns (Some result)) # ws"
    have "history s' = history s @ ?es" using q ws by simp
    moreover have "loads ?es = []" using ws by simp
    moreover have "map excluded (getRequests ?es) =
             take (length (getRequests ?es)) (tried # answeredTried ?es)"
      using q ws by simp
    ultimately show ?thesis by blast
  next
    case (again result s1 s2)
    from query_ok [OF again(1)] obtain q where
      q: "excluded q = tried" "history s1 = history s @ [Get q (GetReturns (Some result))]"
      by blast
    from fmc_events' [OF again(2)] obtain ws where
      ws: "history s2 = history s1 @ ws" "getRequests ws = []" "answeredTried ws = []" "loads ws = []"
      by blast
    from Suc.IH [OF again(4)] obtain es where
      es: "history s' = history s2 @ es" "loads es = []"
        "map excluded (getRequests es) =
           take (length (getRequests es)) (alreadyTried result # answeredTried es)"
      by blast
    let ?es = "Get q (GetReturns (Some result)) # ws @ es"
    have "history s' = history s @ ?es" using q ws es by simp
    moreover have "loads ?es = []" using ws es by (simp add: loads_append)
    moreover have "map excluded (getRequests ?es) =
             take (length (getRequests ?es)) (tried # answeredTried ?es)"
      using q ws es by (simp add: getRequests_append answeredTried_append)
    ultimately show ?thesis by blast
  qed
qed

text \<open>
  The pool of candidates not yet tried shrinks with every iteration that goes on, so
  the loop ends within as many iterations as the pool has members, plus one.
\<close>

lemma frl_terminates:
  assumes fin: "finite pool"
    and honors: "\<forall>h q result. graphql I h q = GetReturns (Some result) \<longrightarrow>
        id' ` set (CandidateSearchResult.networks result) \<subseteq> pool - set (excluded q) \<and>
        set (excluded q) \<union> id' ` set (CandidateSearchResult.networks result)
          \<subseteq> set (alreadyTried result)"
    and fuel: "card (pool - set tried) < fuel"
  shows "fst (findRelationLoop fuel I rel network disable tried s) \<noteq> None"
  using fuel
proof (induction fuel arbitrary: tried s)
  case 0
  then show ?case by simp
next
  case (Suc fuel)
  obtain r s' where run: "findRelationLoop (Suc fuel) I rel network disable tried s = (r, s')"
    by (cases "findRelationLoop (Suc fuel) I rel network disable tried s")
  from run have "r \<noteq> None"
  proof (cases rule: frl_Suc_cases)
    case (again result s1 s2)
    from query_ok [OF again(1)] obtain q where
      q: "excluded q = tried" "graphql I (history s) q = GetReturns (Some result)"
      by blast
    with honors have
      sub: "id' ` set (CandidateSearchResult.networks result) \<subseteq> pool - set tried"
      and acc: "set tried \<union> id' ` set (CandidateSearchResult.networks result)
          \<subseteq> set (alreadyTried result)"
      by blast+
    from again(3) obtain c where c: "c \<in> set (CandidateSearchResult.networks result)"
      by (cases "CandidateSearchResult.networks result") auto
    from c sub have in_old: "id' c \<in> pool - set tried" by blast
    from c acc have not_new: "id' c \<notin> pool - set (alreadyTried result)" by blast
    from acc have "pool - set (alreadyTried result) \<subseteq> pool - set tried" by blast
    with in_old not_new have "pool - set (alreadyTried result) \<subset> pool - set tried" by blast
    with fin have "card (pool - set (alreadyTried result)) < card (pool - set tried)"
      by (simp add: psubset_card_mono)
    with Suc.prems have "card (pool - set (alreadyTried result)) < fuel" by simp
    from Suc.IH [OF this, of s2] again(4) show ?thesis by simp
  qed simp_all
  with run show ?case by simp
qed

text \<open>The two regular ways out of the loop.\<close>

lemma frl_exit_none:
  assumes "findRelationLoop fuel I rel network disable tried s = (Some (Inr None), s')"
  shows "\<exists>pre q result. history s' = history s @ pre @ [Get q (GetReturns (Some result))] \<and>
           CandidateSearchResult.networks result = []"
  using assms
proof (induction fuel arbitrary: tried s)
  case 0
  then show ?case by simp
next
  case (Suc fuel)
  from Suc.prems show ?case
  proof (cases rule: frl_Suc_cases)
    case (exhausted result s1)
    from query_ok [OF exhausted(1)] obtain q where
      q: "history s1 = history s @ [Get q (GetReturns (Some result))]"
      by blast
    from exhausted(2,3) have "s' = s1" by simp
    with q exhausted(3) have "history s' = history s @ [] @ [Get q (GetReturns (Some result))] \<and>
        CandidateSearchResult.networks result = []"
      by simp
    then show ?thesis by blast
  next
    case (again result s1 s2)
    from query_ok [OF again(1)] obtain q where
      q: "history s1 = history s @ [Get q (GetReturns (Some result))]"
      by blast
    from fmc_events' [OF again(2)] obtain ws where
      ws: "history s2 = history s1 @ ws"
      by blast
    from Suc.IH [OF again(4)] obtain pre q' result' where
      "history s' = history s2 @ pre @ [Get q' (GetReturns (Some result'))]"
      "CandidateSearchResult.networks result' = []"
      by blast
    with q ws have "history s' = history s @ (Get q (GetReturns (Some result)) # ws @ pre) @ [Get q' (GetReturns (Some result'))] \<and>
      CandidateSearchResult.networks result' = []"
      by simp
    then show ?thesis by blast
  qed simp_all
qed

lemma frl_exit_found:
  assumes "findRelationLoop fuel I rel network disable tried s = (Some (Inr (Some m)), s')"
  shows "\<exists>pre c. history s' = history s @ pre @
            [Web3 (height (historicBlock c)) (Web3Result (Some (hash (historicBlock c))))] \<and>
           m = toIdObject c"
  using assms
proof (induction fuel arbitrary: tried s)
  case 0
  then show ?case by simp
next
  case (Suc fuel)
  from Suc.prems show ?case
  proof (cases rule: frl_Suc_cases)
    case (found result s1 m')
    from query_ok [OF found(1)] obtain q where
      q: "history s1 = history s @ [Get q (GetReturns (Some result))]"
      by blast
    from found(3) have mm: "m' = m" by simp
    from fmc_match [OF found(2)] mm obtain c pre where
      "m = toIdObject c"
      "history s' = history s1 @ pre @ [Web3 (height (historicBlock c)) (Web3Result (Some (hash (historicBlock c))))]"
      by blast
    with q have "history s' = history s @ (Get q (GetReturns (Some result)) # pre) @
        [Web3 (height (historicBlock c)) (Web3Result (Some (hash (historicBlock c))))] \<and> m = toIdObject c"
      by simp
    then show ?thesis by blast
  next
    case (again result s1 s2)
    from query_ok [OF again(1)] obtain q where
      q: "history s1 = history s @ [Get q (GetReturns (Some result))]"
      by blast
    from fmc_events' [OF again(2)] obtain ws where
      ws: "history s2 = history s1 @ ws"
      by blast
    from Suc.IH [OF again(4)] obtain pre c where
      "history s' = history s2 @ pre @ [Web3 (height (historicBlock c)) (Web3Result (Some (hash (historicBlock c))))]"
      "m = toIdObject c"
      by blast
    with q ws have "history s' = history s @ (Get q (GetReturns (Some result)) # ws @ pre) @
        [Web3 (height (historicBlock c)) (Web3Result (Some (hash (historicBlock c))))] \<and> m = toIdObject c"
      by simp
    then show ?thesis by blast
  qed simp_all
qed

lemma frl_no_self:
  assumes store: "\<forall>h q result. graphql I h q = GetReturns (Some result) \<longrightarrow>
        resourceId q \<notin> id' ` set (CandidateSearchResult.networks result)"
    and run: "findRelationLoop fuel I rel (Some n) disable tried s = (Some (Inr (Some m)), s')"
  shows "id' m \<noteq> id' n"
  using run
proof (induction fuel arbitrary: tried s)
  case 0
  then show ?case by simp
next
  case (Suc fuel)
  from Suc.prems show ?case
  proof (cases rule: frl_Suc_cases)
    case (found result s1 m')
    from query_ok [OF found(1)] obtain q where
      q: "resourceId q = id' n" "graphql I (history s) q = GetReturns (Some result)"
      by auto
    with store have "id' n \<notin> id' ` set (CandidateSearchResult.networks result)"
      by metis
    moreover from fmc_match [OF found(2)] obtain c where
      "c \<in> set (CandidateSearchResult.networks result)" "m' = toIdObject c"
      by blast
    moreover from found(3) have "m' = m" by simp
    ultimately have "id' n \<noteq> id' c" and "id' m = id' c"
      by (auto simp: toIdObject_def)
    then show ?thesis by simp
  next
    case (again result s1 s2)
    from Suc.IH [OF again(4)] show ?thesis .
  qed simp_all
qed

lemma frl_error:
  assumes "findRelationLoop fuel I rel network disable tried s = (Some (Inl e), s')"
  shows "e = TypeError \<or> e = ChainQueryError"
  using assms
proof (induction fuel arbitrary: tried s)
  case 0
  then show ?case by simp
next
  case (Suc fuel)
  from Suc.prems show ?case
  proof (cases rule: frl_Suc_cases)
    case (queryFails e')
    with query_fail [OF queryFails(1)] show ?thesis by simp
  next
    case (chainFails result s1 e')
    with fmc_error [OF chainFails(2)] show ?thesis by simp
  next
    case (again result s1 s2)
    from Suc.IH [OF again(4)] show ?thesis .
  qed simp_all
qed

lemma fr_events:
  assumes "findRelation fuel I rel network disable s = (r, s')"
  shows "\<exists>es. history s' = history s @ es \<and> loads es = []"
  using frl_events [OF assms [unfolded findRelation_def]] by blast

text \<open>
  A store query that failed ends the search with a TypeError, and a chain query that
  failed ends it with the failure of the chain client.
\<close>

lemma frl_failures:
  assumes "findRelationLoop fuel I rel network disable tried s = (r, s')"
  shows "((\<exists>q. Get q GetThrows \<in> set (newEvents s s')) \<longrightarrow> r = Some (Inl TypeError)) \<and>
         ((\<exists>h. Web3 h Web3Throws \<in> set (newEvents s s')) \<longrightarrow> r = Some (Inl ChainQueryError))"
  using assms
proof (induction fuel arbitrary: tried s)
  case 0
  then show ?case by (simp add: newEvents_def)
next
  case (Suc fuel)
  from Suc.prems show ?case
  proof (cases rule: frl_Suc_cases)
    case (queryFails e)
    from query_fail [OF queryFails(1)] consider
      (silent) "e = TypeError" "history s' = history s"
    | (asked) q r where "e = TypeError" "history s' = history s @ [Get q r]"
      by blast
    then show ?thesis
    proof cases
      case silent
      with queryFails(2) show ?thesis by (simp add: newEvents_def)
    next
      case asked
      with queryFails(2) newEvents_append [OF asked(2)] show ?thesis by simp
    qed
  next
    case (chainFails result s1 e)
    from query_ok [OF chainFails(1)] obtain q where
      q: "history s1 = history s @ [Get q (GetReturns (Some result))]"
      by blast
    from fmc_events' [OF chainFails(2)] obtain ws where
      ws: "history s' = history s1 @ ws" "getRequests ws = []"
      by blast
    from q ws have "history s' = history s @ (Get q (GetReturns (Some result)) # ws)" by simp
    from newEvents_append [OF this]
    have new: "newEvents s s' = Get q (GetReturns (Some result)) # ws" .
    from fmc_error [OF chainFails(2)] chainFails(3) have "r = Some (Inl ChainQueryError)" by simp
    with new no_requests_no_Get [OF ws(2)] show ?thesis by simp
  next
    case (found result s1 m)
    from query_ok [OF found(1)] obtain q where
      q: "history s1 = history s @ [Get q (GetReturns (Some result))]"
      by blast
    from fmc_events' [OF found(2)] obtain ws where
      ws: "history s' = history s1 @ ws" "getRequests ws = []"
      by blast
    from q ws have "history s' = history s @ (Get q (GetReturns (Some result)) # ws)" by simp
    from newEvents_append [OF this]
    have new: "newEvents s s' = Get q (GetReturns (Some result)) # ws" .
    have "\<And>h. Web3 h Web3Throws \<notin> set ws"
      using fmc_throws [OF found(2) ws(1)] by auto
    with new no_requests_no_Get [OF ws(2)] show ?thesis by simp
  next
    case (exhausted result s1)
    from query_ok [OF exhausted(1)] obtain q where
      q: "history s1 = history s @ [Get q (GetReturns (Some result))]"
      by blast
    from fmc_events' [OF exhausted(2)] obtain ws where
      ws: "history s' = history s1 @ ws" "getRequests ws = []"
      by blast
    from q ws have "history s' = history s @ (Get q (GetReturns (Some result)) # ws)" by simp
    from newEvents_append [OF this]
    have new: "newEvents s s' = Get q (GetReturns (Some result)) # ws" .
    have "\<And>h. Web3 h Web3Throws \<notin> set ws"
      using fmc_throws [OF exhausted(2) ws(1)] by auto
    with new no_requests_no_Get [OF ws(2)] show ?thesis by simp
  next
    case (again result s1 s2)
    from query_ok [OF again(1)] obtain q where
      q: "history s1 = history s @ [Get q (GetReturns (Some result))]"
      by blast
    from fmc_events' [OF again(2)] obtain ws where
      ws: "history s2 = history s1 @ ws" "getRequests ws = []"
      by blast
    from frl_events [OF again(4)] obtain es where es: "history s' = history s2 @ es"
      by blast
    from q ws es have "history s' = history s @ (Get q (GetReturns (Some result)) # ws @ es)"
      by simp
    from newEvents_append [OF this]
    have new: "newEvents s s' = Get q (GetReturns (Some result)) # ws @ es" .
    from newEvents_append [OF es] have new2: "newEvents s2 s' = es" .
    have "\<And>h. Web3 h Web3Throws \<notin> set ws"
      using fmc_throws [OF again(2) ws(1)] by auto
    with new new2 no_requests_no_Get [OF ws(2)] Suc.IH [OF again(4)] show ?thesis
      by auto
  qed
qed

lemma newEvents_trans:
  "history s1 = history s @ es1 \<Longrightarrow> history s2 = history s1 @ es2 \<Longrightarrow>
   newEvents s s2 = newEvents s s1 @ newEvents s1 s2"
  by (simp add: newEvents_def)

lemma fr_failures:
  assumes "findRelation fuel I rel network disable s = (r, s')"
  shows "((\<exists>q. Get q GetThrows \<in> set (newEvents s s')) \<longrightarrow> r = Some (Inl TypeError)) \<and>
         ((\<exists>h. Web3 h Web3Throws \<in> set (newEvents s s')) \<longrightarrow> r = Some (Inl ChainQueryError))"
  using frl_failures [OF assms [unfolded findRelation_def]] .

text \<open>
  C6. In every search, the exclusion list of the first store query is empty and the
  exclusion list of every later query is the \<^verbatim>\<open>alreadyTried\<close> list that the store
  answered to the query before it. If the store draws its candidates from a finite pool,
  never returns an excluded id, and answers with an \<^verbatim>\<open>alreadyTried\<close> list that holds
  the excluded ids and the ids of the candidates it returned, then the loop ends within
  one iteration more than the pool has members. When the search ends without a result,
  the last store answer had no candidates; when it ends with a result, the last chain
  query confirmed it.
\<close>

theorem findRelation_exclusion_and_termination:
  assumes "findRelation fuel I rel network disable s = (r, s')"
  shows "map excluded (getRequests (newEvents s s')) =
           take (length (getRequests (newEvents s s'))) ([] # answeredTried (newEvents s s')) \<and>
         (finite pool \<and>
          (\<forall>h q result. graphql I h q = GetReturns (Some result) \<longrightarrow>
             id' ` set (CandidateSearchResult.networks result) \<subseteq> pool - set (excluded q) \<and>
             set (excluded q) \<union> id' ` set (CandidateSearchResult.networks result)
               \<subseteq> set (alreadyTried result)) \<and>
          card pool < fuel \<longrightarrow> r \<noteq> None) \<and>
         (r = Some (Inr None) \<longrightarrow>
            (\<exists>pre q result. newEvents s s' = pre @ [Get q (GetReturns (Some result))] \<and>
               CandidateSearchResult.networks result = [])) \<and>
         (\<forall>m. r = Some (Inr (Some m)) \<longrightarrow>
            (\<exists>pre c. newEvents s s' = pre @
                [Web3 (height (historicBlock c)) (Web3Result (Some (hash (historicBlock c))))] \<and>
               m = toIdObject c))"
proof (intro conjI impI allI)
  from frl_events [OF assms [unfolded findRelation_def]] obtain es where
    "history s' = history s @ es"
    "map excluded (getRequests es) = take (length (getRequests es)) ([] # answeredTried es)"
    by blast
  with newEvents_append [of s' s es]
  show "map excluded (getRequests (newEvents s s')) =
           take (length (getRequests (newEvents s s'))) ([] # answeredTried (newEvents s s'))"
    by simp
next
  assume h: "finite pool \<and>
          (\<forall>h q result. graphql I h q = GetReturns (Some result) \<longrightarrow>
             id' ` set (CandidateSearchResult.networks result) \<subseteq> pool - set (excluded q) \<and>
             set (excluded q) \<union> id' ` set (CandidateSearchResult.networks result)
               \<subseteq> set (alreadyTried result)) \<and>
          card pool < fuel"
  then have "card (pool - set []) < fuel" by simp
  with h frl_terminates [of pool I "[]" fuel rel network disable s]
  have "fst (findRelationLoop fuel I rel network disable [] s) \<noteq> None"
    by blast
  with assms show "r \<noteq> None" by (simp add: findRelation_def)
next
  assume "r = Some (Inr None)"
  with assms have "findRelationLoop fuel I rel network disable [] s = (Some (Inr None), s')"
    by (simp add: findRelation_def)
  from frl_exit_none [OF this] obtain pre q result where
    "history s' = history s @ (pre @ [Get q (GetReturns (Some result))])"
    "CandidateSearchResult.networks result = []"
    by auto
  with newEvents_append [of s' s "pre @ [Get q (GetReturns (Some result))]"]
  show "\<exists>pre q result. newEvents s s' = pre @ [Get q (GetReturns (Some result))] \<and>
               CandidateSearchResult.networks result = []"
    by blast
next
  fix m assume "r = Some (Inr (Some m))"
  with assms have "findRelationLoop fuel I rel network disable [] s = (Some (Inr (Some m)), s')"
    by (simp add: findRelation_def)
  from frl_exit_found [OF this] obtain pre c where
    "history s' = history s @ (pre @
        [Web3 (height (historicBlock c)) (Web3Result (Some (hash (historicBlock c))))])"
    "m = toIdObject c"
    by auto
  with newEvents_append [of s' s "pre @
        [Web3 (height (historicBlock c)) (Web3Result (Some (hash (historicBlock c))))]"]
  show "\<exists>pre c. newEvents s s' = pre @
                [Web3 (height (historicBlock c)) (Web3Result (Some (hash (historicBlock c))))] \<and>
               m = toIdObject c"
    by blast
qed

text \<open>
  A search for an ancestor of \<open>n2\<close>: the store proposes \<open>n1\<close>, the chain does not have
  it, the second query excludes \<open>n1\<close> and is answered with no candidates.
\<close>

theorem findRelation_exclusion_and_termination_witness:
  "fst (findRelation (Suc (Suc 0)) unconfirmedStore Ancestor (Some \<lparr>id' = ''n2''\<rparr>) False
          initialState) = Some (Inr None) \<and>
   map excluded (getRequests (newEvents initialState
     (snd (findRelation (Suc (Suc 0)) unconfirmedStore Ancestor (Some \<lparr>id' = ''n2''\<rparr>) False
        initialState)))) = [[], [''n1'']]"
proof -
  let ?run = "findRelation (Suc (Suc 0)) unconfirmedStore Ancestor (Some \<lparr>id' = ''n2''\<rparr>) False
     initialState"
  have honest: "\<forall>h q result. graphql unconfirmedStore h q = GetReturns (Some result) \<longrightarrow>
      id' ` set (CandidateSearchResult.networks result) \<subseteq> {''n1''} - set (excluded q) \<and>
      set (excluded q) \<union> id' ` set (CandidateSearchResult.networks result)
        \<subseteq> set (alreadyTried result)"
    by (auto simp: unconfirmedStore_def knownStore_def n1_def)
  have run: "?run =
      (Some (Inr None),
       \<lparr>history =
          [Get \<lparr>resourceId = ''n2'', forRelation = Ancestor, fragment = 0,
                 excluded = [], indexDisabled = False\<rparr>
             (GetReturns (Some \<lparr>CandidateSearchResult.networks = [n1],
                                 alreadyTried = [''n1'']\<rparr>)),
           Web3 100 (Web3Result None),
           Get \<lparr>resourceId = ''n2'', forRelation = Ancestor, fragment = Suc 0,
                 excluded = [''n1''], indexDisabled = False\<rparr>
             (GetReturns (Some \<lparr>CandidateSearchResult.networks = [],
                                 alreadyTried = [''n1'']\<rparr>))],
        fragmentIndex = Suc (Suc 0)\<rparr>)"
    by (simp add: findRelation_def queryNextPossiblyRelatedNetworks_def unconfirmedStore_def
          knownStore_def initialState_def n1_def)
  from findRelation_exclusion_and_termination [OF run, of "{''n1''}"] honest
  have "Some (Inr None) \<noteq> (None :: (error + IdObject option) option)"
    by simp
  with run show ?thesis
    by (simp add: newEvents_def initialState_def)
qed

section \<open>Properties of the Genealogy Loader\<close>

text \<open>The ways one iteration of the loop over the networks can go.\<close>

lemma searchAll_Cons_cases:
  assumes "searchAll fuel I disable (n # rest) gs s = (r, s')"
  obtains
    (stopsFirst) ra where
      "findRelation fuel I Ancestor (Some n) disable s = (ra, s')"
      "\<forall>found. ra \<noteq> Some (Inr found)"
      "r = (case ra of None \<Rightarrow> None | Some (Inl e) \<Rightarrow> Some (Inl e) | Some (Inr _) \<Rightarrow> None)"
  | (stopsSecond) fa s1 rd where
      "findRelation fuel I Ancestor (Some n) disable s = (Some (Inr fa), s1)"
      "findRelation fuel I Descendant (Some n) disable s1 = (rd, s')"
      "\<forall>found. rd \<noteq> Some (Inr found)"
      "r = (case rd of None \<Rightarrow> None | Some (Inl e) \<Rightarrow> Some (Inl e) | Some (Inr _) \<Rightarrow> None)"
  | (continues) fa s1 fd s2 where
      "findRelation fuel I Ancestor (Some n) disable s = (Some (Inr fa), s1)"
      "findRelation fuel I Descendant (Some n) disable s1 = (Some (Inr fd), s2)"
      "searchAll fuel I disable rest
         ((gs @ (case fa of None \<Rightarrow> [] | Some a \<Rightarrow> [\<lparr>ancestor = a, descendant = n\<rparr>])) @
          (case fd of None \<Rightarrow> [] | Some d \<Rightarrow> [\<lparr>ancestor = n, descendant = d\<rparr>])) s2 = (r, s')"
proof (cases "findRelation fuel I Ancestor (Some n) disable s")
  case (Pair ra s1)
  show ?thesis
  proof (cases "\<exists>fa. ra = Some (Inr fa)")
    case False
    with Pair assms have "s1 = s'"
      and "r = (case ra of None \<Rightarrow> None | Some (Inl e) \<Rightarrow> Some (Inl e) | Some (Inr _) \<Rightarrow> None)"
      by (auto split: option.splits sum.splits)
    with Pair False show ?thesis using stopsFirst by blast
  next
    case True
    then obtain fa where fa: "ra = Some (Inr fa)" by blast
    show ?thesis
    proof (cases "findRelation fuel I Descendant (Some n) disable s1")
      case rd: (Pair rd s2)
      show ?thesis
      proof (cases "\<exists>fd. rd = Some (Inr fd)")
        case False
        with Pair fa rd assms have "s2 = s'"
          and "r = (case rd of None \<Rightarrow> None | Some (Inl e) \<Rightarrow> Some (Inl e) | Some (Inr _) \<Rightarrow> None)"
          by (auto simp: Let_def split: option.splits sum.splits)
        with Pair fa rd False show ?thesis using stopsSecond by blast
      next
        case True
        then obtain fd where fd: "rd = Some (Inr fd)" by blast
        have g1: "(case fa of None \<Rightarrow> gs | Some a \<Rightarrow> gs @ [\<lparr>ancestor = a, descendant = n\<rparr>]) =
            gs @ (case fa of None \<Rightarrow> [] | Some a \<Rightarrow> [\<lparr>ancestor = a, descendant = n\<rparr>])"
          by (cases fa) simp_all
        have g2: "\<And>g. (case fd of None \<Rightarrow> g | Some d \<Rightarrow> g @ [\<lparr>ancestor = n, descendant = d\<rparr>]) =
            g @ (case fd of None \<Rightarrow> [] | Some d \<Rightarrow> [\<lparr>ancestor = n, descendant = d\<rparr>])"
          by (cases fd) simp_all
        from Pair fa rd fd assms
        have "searchAll fuel I disable rest
         ((gs @ (case fa of None \<Rightarrow> [] | Some a \<Rightarrow> [\<lparr>ancestor = a, descendant = n\<rparr>])) @
          (case fd of None \<Rightarrow> [] | Some d \<Rightarrow> [\<lparr>ancestor = n, descendant = d\<rparr>])) s2 = (r, s')"
          by (simp add: Let_def g1 g2)
        with Pair fa rd fd show ?thesis using continues by blast
      qed
    qed
  qed
qed

text \<open>The searches load nothing and raise nothing but what a search raises.\<close>

lemma searchAll_events:
  assumes "searchAll fuel I disable nets gs s = (r, s')"
  shows "\<exists>es. history s' = history s @ es \<and> loads es = []"
  using assms
proof (induction nets arbitrary: gs s)
  case Nil
  then show ?case by simp
next
  case (Cons n rest)
  from Cons.prems show ?case
  proof (cases rule: searchAll_Cons_cases)
    case (stopsFirst ra)
    from fr_events [OF stopsFirst(1)] show ?thesis .
  next
    case (stopsSecond fa s1 rd)
    from fr_events [OF stopsSecond(1)] fr_events [OF stopsSecond(2)]
    obtain es1 es2 where "history s1 = history s @ es1" "loads es1 = []"
      "history s' = history s1 @ es2" "loads es2 = []"
      by blast
    then have "history s' = history s @ (es1 @ es2) \<and> loads (es1 @ es2) = []"
      by (simp add: loads_append)
    then show ?thesis by blast
  next
    case (continues fa s1 fd s2)
    from fr_events [OF continues(1)] fr_events [OF continues(2)] Cons.IH [OF continues(3)]
    obtain es1 es2 es3 where "history s1 = history s @ es1" "loads es1 = []"
      "history s2 = history s1 @ es2" "loads es2 = []"
      "history s' = history s2 @ es3" "loads es3 = []"
      by blast
    then have "history s' = history s @ (es1 @ es2 @ es3) \<and> loads (es1 @ es2 @ es3) = []"
      by (simp add: loads_append)
    then show ?thesis by blast
  qed
qed

lemma searchAll_error:
  assumes "searchAll fuel I disable nets gs s = (Some (Inl e), s')"
  shows "e = TypeError \<or> e = ChainQueryError"
  using assms
proof (induction nets arbitrary: gs s)
  case Nil
  then show ?case by simp
next
  case (Cons n rest)
  from Cons.prems show ?case
  proof (cases rule: searchAll_Cons_cases)
    case (stopsFirst ra)
    then obtain "ra = Some (Inl e)"
      by (auto split: option.splits sum.splits)
    with stopsFirst(1) frl_error show ?thesis
      unfolding findRelation_def by blast
  next
    case (stopsSecond fa s1 rd)
    then obtain "rd = Some (Inl e)"
      by (auto split: option.splits sum.splits)
    with stopsSecond(2) frl_error show ?thesis
      unfolding findRelation_def by blast
  next
    case (continues fa s1 fd s2)
    from Cons.IH [OF continues(3)] show ?thesis .
  qed
qed

lemma searchAll_failures:
  assumes "searchAll fuel I disable nets gs s = (r, s')"
  shows "((\<exists>q. Get q GetThrows \<in> set (newEvents s s')) \<longrightarrow> r = Some (Inl TypeError)) \<and>
         ((\<exists>h. Web3 h Web3Throws \<in> set (newEvents s s')) \<longrightarrow> r = Some (Inl ChainQueryError))"
  using assms
proof (induction nets arbitrary: gs s)
  case Nil
  then show ?case by (simp add: newEvents_def)
next
  case (Cons n rest)
  from Cons.prems show ?case
  proof (cases rule: searchAll_Cons_cases)
    case (stopsFirst ra)
    from fr_failures [OF stopsFirst(1)] stopsFirst(3) show ?thesis
      by auto
  next
    case (stopsSecond fa s1 rd)
    from fr_events [OF stopsSecond(1)] fr_events [OF stopsSecond(2)]
    obtain es1 es2 where "history s1 = history s @ es1" "history s' = history s1 @ es2"
      by blast
    from newEvents_trans [OF this]
    have "newEvents s s' = newEvents s s1 @ newEvents s1 s'" .
    with fr_failures [OF stopsSecond(1)] fr_failures [OF stopsSecond(2)] stopsSecond(4)
    show ?thesis by auto
  next
    case (continues fa s1 fd s2)
    from fr_events [OF continues(1)] fr_events [OF continues(2)] searchAll_events [OF continues(3)]
    obtain es1 es2 es3 where h: "history s1 = history s @ es1" "history s2 = history s1 @ es2"
      "history s' = history s2 @ es3"
      by blast
    from h have "history s2 = history s @ (es1 @ es2)" by simp
    from newEvents_trans [OF this h(3)] newEvents_trans [OF h(1,2)]
    have "newEvents s s' = newEvents s s1 @ newEvents s1 s2 @ newEvents s2 s'" by simp
    with fr_failures [OF continues(1)] fr_failures [OF continues(2)] Cons.IH [OF continues(3)]
    show ?thesis by auto
  qed
qed

text \<open>
  The searches only add to the genealogies; each genealogy they add has a network of
  the batch at one end.
\<close>

lemma searchAll_genealogies:
  assumes "searchAll fuel I disable nets gs s = (Some (Inr gs'), s')"
  shows "\<exists>cross. gs' = gs @ cross \<and>
           (\<forall>e \<in> set cross. ancestor e \<in> set nets \<or> descendant e \<in> set nets) \<and>
           ((\<forall>h q result. graphql I h q = GetReturns (Some result) \<longrightarrow>
                resourceId q \<notin> id' ` set (CandidateSearchResult.networks result)) \<longrightarrow>
            (\<forall>e \<in> set cross. id' (ancestor e) \<noteq> id' (descendant e)))"
  using assms
proof (induction nets arbitrary: gs s)
  case Nil
  then show ?case by simp
next
  case (Cons n rest)
  from Cons.prems show ?case
  proof (cases rule: searchAll_Cons_cases)
    case (stopsFirst ra)
    then show ?thesis by (auto split: option.splits sum.splits)
  next
    case (stopsSecond fa s1 rd)
    then show ?thesis by (auto split: option.splits sum.splits)
  next
    case (continues fa s1 fd s2)
    define ea where "ea = (case fa of None \<Rightarrow> [] | Some a \<Rightarrow> [\<lparr>ancestor = a, descendant = n\<rparr>])"
    define ed where "ed = (case fd of None \<Rightarrow> [] | Some d \<Rightarrow> [\<lparr>ancestor = n, descendant = d\<rparr>])"
    let ?store = "\<forall>h q result. graphql I h q = GetReturns (Some result) \<longrightarrow>
                resourceId q \<notin> id' ` set (CandidateSearchResult.networks result)"
    from Cons.IH [OF continues(3) [folded ea_def ed_def]] obtain cross where
      cross: "gs' = ((gs @ ea) @ ed) @ cross"
        "\<forall>e \<in> set cross. ancestor e \<in> set rest \<or> descendant e \<in> set rest"
        "?store \<longrightarrow> (\<forall>e \<in> set cross. id' (ancestor e) \<noteq> id' (descendant e))"
      by blast
    have a_end: "\<forall>e \<in> set ea. descendant e = n"
      unfolding ea_def by (cases fa) simp_all
    have d_end: "\<forall>e \<in> set ed. ancestor e = n"
      unfolding ed_def by (cases fd) simp_all
    have a_ok: "?store \<longrightarrow> (\<forall>e \<in> set ea. id' (ancestor e) \<noteq> id' (descendant e))"
    proof (cases fa)
      case None
      then show ?thesis by (simp add: ea_def)
    next
      case (Some a)
      with continues(1) frl_no_self [of I fuel Ancestor n disable "[]" s a s1]
      show ?thesis by (simp add: findRelation_def ea_def)
    qed
    have d_ok: "?store \<longrightarrow> (\<forall>e \<in> set ed. id' (ancestor e) \<noteq> id' (descendant e))"
    proof (cases fd)
      case None
      then show ?thesis by (simp add: ed_def)
    next
      case (Some d)
      with continues(2) frl_no_self [of I fuel Descendant n disable "[]" s1 d s2]
      have "?store \<longrightarrow> id' d \<noteq> id' n" by (simp add: findRelation_def)
      with Some show ?thesis by (auto simp add: ed_def)
    qed
    have split: "set (ea @ ed @ cross) = set ea \<union> set ed \<union> set cross" by auto
    have "gs' = gs @ (ea @ ed @ cross)" using cross(1) by simp
    moreover have "\<forall>e \<in> set (ea @ ed @ cross).
        ancestor e \<in> set (n # rest) \<or> descendant e \<in> set (n # rest)"
      unfolding split using a_end d_end cross(2) by (simp add: ball_Un) blast
    moreover have "?store \<longrightarrow>
        (\<forall>e \<in> set (ea @ ed @ cross). id' (ancestor e) \<noteq> id' (descendant e))"
      unfolding split using a_ok d_ok cross(3) by (simp add: ball_Un)
    ultimately show ?thesis by blast
  qed
qed

lemma load_eq:
  "load I gs s = (r, s') \<Longrightarrow>
     history s' = history s @ [Load gs (loader I (history s) gs)] \<and>
     r = (case loader I (history s) gs of
            LoadThrows \<Rightarrow> Inl StoreLoadError | LoadReturns results \<Rightarrow> Inr results)"
  by (auto simp: load_def Let_def split: load_response.splits)

text \<open>The ways \<^verbatim>\<open>process\<close> can go.\<close>

lemma process_cases:
  assumes "process fuel I options s = (r, s')"
  obtains
    (emptyBatch) "Options.networks options = []" "r = Some (Inr None)" "s' = s"
  | (firstStops) r0 where
      "Options.networks options \<noteq> []"
      "findRelation fuel I Ancestor (earliest (Collected.networks (collectNetworks options)))
         (disableIndex options) s = (r0, s')"
      "r0 = None \<or> (\<exists>e. r0 = Some (Inl e))"
      "r = (case r0 of Some (Inl e) \<Rightarrow> Some (Inl e) | _ \<Rightarrow> None)"
  | (searchStops) f0 s1 r1 where
      "Options.networks options \<noteq> []"
      "findRelation fuel I Ancestor (earliest (Collected.networks (collectNetworks options)))
         (disableIndex options) s = (Some (Inr f0), s1)"
      "searchAll fuel I (disableIndex options) (Collected.networks (collectNetworks options))
         (networkGenealogies (collectNetworks options)) s1 = (r1, s')"
      "r1 = None \<or> (\<exists>e. r1 = Some (Inl e))"
      "r = (case r1 of Some (Inl e) \<Rightarrow> Some (Inl e) | _ \<Rightarrow> None)"
  | (loaded) f0 s1 gs s2 rl where
      "Options.networks options \<noteq> []"
      "findRelation fuel I Ancestor (earliest (Collected.networks (collectNetworks options)))
         (disableIndex options) s = (Some (Inr f0), s1)"
      "searchAll fuel I (disableIndex options) (Collected.networks (collectNetworks options))
         (networkGenealogies (collectNetworks options)) s1 = (Some (Inr gs), s2)"
      "load I gs s2 = (rl, s')"
      "r = (case rl of Inl e \<Rightarrow> Some (Inl e) | Inr results \<Rightarrow> Some (Inr (Some results)))"
proof (cases "Options.networks options = []")
  case True
  with assms emptyBatch show ?thesis by (simp add: process_def)
next
  case ne: False
  let ?c = "collectNetworks options"
  show ?thesis
  proof (cases "findRelation fuel I Ancestor (earliest (Collected.networks ?c)) (disableIndex options) s")
    case first: (Pair r0 s1)
    show ?thesis
    proof (cases "\<exists>f0. r0 = Some (Inr f0)")
      case False
      then have shape: "r0 = None \<or> (\<exists>e. r0 = Some (Inl e))"
        by (cases r0) (auto intro: sum.exhaust)
      with first ne assms have "s1 = s'" "r = (case r0 of Some (Inl e) \<Rightarrow> Some (Inl e) | _ \<Rightarrow> None)"
        by (auto simp: process_def Let_def)
      with first ne shape show ?thesis using firstStops by blast
    next
      case True
      then obtain f0 where f0: "r0 = Some (Inr f0)" by blast
      show ?thesis
      proof (cases "searchAll fuel I (disableIndex options) (Collected.networks ?c)
                      (networkGenealogies ?c) s1")
        case search: (Pair r1 s2)
        show ?thesis
        proof (cases "\<exists>gs. r1 = Some (Inr gs)")
          case False
          then have shape: "r1 = None \<or> (\<exists>e. r1 = Some (Inl e))"
            by (cases r1) (auto intro: sum.exhaust)
          with first f0 search ne assms have "s2 = s'"
            "r = (case r1 of Some (Inl e) \<Rightarrow> Some (Inl e) | _ \<Rightarrow> None)"
            by (auto simp: process_def Let_def)
          with first f0 search ne shape show ?thesis using searchStops by blast
        next
          case True
          then obtain gs where gs: "r1 = Some (Inr gs)" by blast
          obtain rl s3 where l: "load I gs s2 = (rl, s3)" by (cases "load I gs s2")
          with first f0 search gs ne assms have "s3 = s'"
            "r = (case rl of Inl e \<Rightarrow> Some (Inl e) | Inr results \<Rightarrow> Some (Inr (Some results)))"
            by (auto simp: process_def Let_def split: sum.splits)
          with first f0 search gs l ne show ?thesis using loaded by blast
        qed
      qed
    qed
  qed
qed

lemma earliest_absent:
  assumes "present (Options.networks options) = []"
  shows "earliest (Collected.networks (collectNetworks options)) = None"
  using assms by (simp add: earliest_def collect_networks_eq sortedResources_def)

lemma process_load_cases:
  assumes "process fuel I options s = (r, s')"
  shows "(loads (history s') = loads (history s) \<and>
          (r = None \<or> r = Some (Inr None) \<or> r = Some (Inl TypeError) \<or>
           r = Some (Inl ChainQueryError)))
       \<or> (\<exists>s1 s2 cross response.
            searchAll fuel I (disableIndex options) (Collected.networks (collectNetworks options))
              (networkGenealogies (collectNetworks options)) s1 =
              (Some (Inr (networkGenealogies (collectNetworks options) @ cross)), s2) \<and>
            loads (history s2) = loads (history s) \<and>
            history s' = history s2 @
              [Load (networkGenealogies (collectNetworks options) @ cross) response] \<and>
            r = (case response of
                   LoadThrows \<Rightarrow> Some (Inl StoreLoadError)
                 | LoadReturns results \<Rightarrow> Some (Inr (Some results))))"
  using assms
proof (cases rule: process_cases)
  case emptyBatch
  then show ?thesis by simp
next
  case (firstStops r0)
  from fr_events [OF firstStops(2)] have l: "loads (history s') = loads (history s)"
    by (auto simp: loads_append)
  from firstStops(3) have "r = None \<or> r = Some (Inl TypeError) \<or> r = Some (Inl ChainQueryError)"
  proof
    assume "r0 = None"
    with firstStops(4) show ?thesis by simp
  next
    assume "\<exists>e. r0 = Some (Inl e)"
    then obtain e where e: "r0 = Some (Inl e)" by blast
    with firstStops(2) frl_error have "e = TypeError \<or> e = ChainQueryError"
      unfolding findRelation_def by blast
    with e firstStops(4) show ?thesis by auto
  qed
  with l show ?thesis by blast
next
  case (searchStops f0 s1 r1)
  from fr_events [OF searchStops(2)] searchAll_events [OF searchStops(3)]
  have l: "loads (history s') = loads (history s)"
    by (auto simp: loads_append)
  from searchStops(4) have "r = None \<or> r = Some (Inl TypeError) \<or> r = Some (Inl ChainQueryError)"
  proof
    assume "r1 = None"
    with searchStops(5) show ?thesis by simp
  next
    assume "\<exists>e. r1 = Some (Inl e)"
    then obtain e where e: "r1 = Some (Inl e)" by blast
    with searchStops(3) searchAll_error have "e = TypeError \<or> e = ChainQueryError"
      by blast
    with e searchStops(5) show ?thesis by auto
  qed
  with l show ?thesis by blast
next
  case (loaded f0 s1 gs s2 rl)
  from fr_events [OF loaded(2)] searchAll_events [OF loaded(3)]
  have l: "loads (history s2) = loads (history s)"
    by (auto simp: loads_append)
  from searchAll_genealogies [OF loaded(3)] obtain cross where
    cross: "gs = networkGenealogies (collectNetworks options) @ cross"
    by blast
  from load_eq [OF loaded(4)] have
    h: "history s' = history s2 @ [Load gs (loader I (history s2) gs)]"
    and rl: "rl = (case loader I (history s2) gs of
            LoadThrows \<Rightarrow> Inl StoreLoadError | LoadReturns results \<Rightarrow> Inr results)"
    by simp_all
  from rl loaded(5) have "r = (case loader I (history s2) gs of
                   LoadThrows \<Rightarrow> Some (Inl StoreLoadError)
                 | LoadReturns results \<Rightarrow> Some (Inr (Some results)))"
    by (simp split: load_response.splits)
  with loaded(3) l h cross show ?thesis by blast
qed

lemma process_store_failure:
  assumes "process fuel I options s = (r, s')"
    and "Get q GetThrows \<in> set (newEvents s s')"
  shows "r = Some (Inl TypeError) \<and> r \<noteq> Some (Inl StoreQueryError) \<and> loads (newEvents s s') = []"
  using assms(1)
proof (cases rule: process_cases)
  case emptyBatch
  with assms(2) show ?thesis by (simp add: newEvents_def)
next
  case (firstStops r0)
  from fr_events [OF firstStops(2)] obtain es where es: "history s' = history s @ es" "loads es = []"
    by blast
  from fr_failures [OF firstStops(2)] assms(2) have "r0 = Some (Inl TypeError)" by blast
  with firstStops(4) newEvents_append [OF es(1)] es(2) show ?thesis by simp
next
  case (searchStops f0 s1 r1)
  from fr_events [OF searchStops(2)] searchAll_events [OF searchStops(3)]
  obtain es1 es2 where es: "history s1 = history s @ es1" "loads es1 = []"
    "history s' = history s1 @ es2" "loads es2 = []"
    by blast
  from newEvents_trans [OF es(1) es(3)]
  have new: "newEvents s s' = newEvents s s1 @ newEvents s1 s'" .
  from fr_failures [OF searchStops(2)] have "\<And>q. Get q GetThrows \<notin> set (newEvents s s1)"
    by auto
  with new assms(2) have "Get q GetThrows \<in> set (newEvents s1 s')" by simp
  with searchAll_failures [OF searchStops(3)] have "r1 = Some (Inl TypeError)" by blast
  with searchStops(5) new newEvents_append [OF es(1)] newEvents_append [OF es(3)] es(2,4)
  show ?thesis by (simp add: loads_append)
next
  case (loaded f0 s1 gs s2 rl)
  from fr_events [OF loaded(2)] searchAll_events [OF loaded(3)]
  obtain es1 es2 where es: "history s1 = history s @ es1" "history s2 = history s1 @ es2"
    by blast
  from load_eq [OF loaded(4)] have
    h: "history s' = history s2 @ [Load gs (loader I (history s2) gs)]"
    by simp
  from es have "history s2 = history s @ (es1 @ es2)" by simp
  from newEvents_trans [OF this h] newEvents_trans [OF es] newEvents_append [OF h]
  have new: "newEvents s s' = newEvents s s1 @ newEvents s1 s2 @ [Load gs (loader I (history s2) gs)]"
    by simp
  from fr_failures [OF loaded(2)] have "\<And>q. Get q GetThrows \<notin> set (newEvents s s1)"
    by auto
  moreover from searchAll_failures [OF loaded(3)] have "\<And>q. Get q GetThrows \<notin> set (newEvents s1 s2)"
    by auto
  ultimately have "Get q GetThrows \<notin> set (newEvents s s')"
    using new by simp
  with assms(2) show ?thesis by simp
qed

text \<open>A failed chain query ends the run with that failure, and nothing is loaded.\<close>

lemma process_chain_failure:
  assumes "process fuel I options s = (r, s')"
    and "Web3 h Web3Throws \<in> set (newEvents s s')"
  shows "r = Some (Inl ChainQueryError) \<and> loads (newEvents s s') = []"
  using assms(1)
proof (cases rule: process_cases)
  case emptyBatch
  with assms(2) show ?thesis by (simp add: newEvents_def)
next
  case (firstStops r0)
  from fr_events [OF firstStops(2)] obtain es where es: "history s' = history s @ es" "loads es = []"
    by blast
  from fr_failures [OF firstStops(2)] assms(2) have "r0 = Some (Inl ChainQueryError)" by blast
  with firstStops(4) newEvents_append [OF es(1)] es(2) show ?thesis by simp
next
  case (searchStops f0 s1 r1)
  from fr_events [OF searchStops(2)] searchAll_events [OF searchStops(3)]
  obtain es1 es2 where es: "history s1 = history s @ es1" "loads es1 = []"
    "history s' = history s1 @ es2" "loads es2 = []"
    by blast
  from newEvents_trans [OF es(1) es(3)]
  have new: "newEvents s s' = newEvents s s1 @ newEvents s1 s'" .
  from fr_failures [OF searchStops(2)] have "\<And>h. Web3 h Web3Throws \<notin> set (newEvents s s1)"
    by auto
  with new assms(2) have "Web3 h Web3Throws \<in> set (newEvents s1 s')" by simp
  with searchAll_failures [OF searchStops(3)] have "r1 = Some (Inl ChainQueryError)" by blast
  with searchStops(5) new newEvents_append [OF es(1)] newEvents_append [OF es(3)] es(2,4)
  show ?thesis by (simp add: loads_append)
next
  case (loaded f0 s1 gs s2 rl)
  from fr_events [OF loaded(2)] searchAll_events [OF loaded(3)]
  obtain es1 es2 where es: "history s1 = history s @ es1" "history s2 = history s1 @ es2"
    by blast
  from load_eq [OF loaded(4)] have
    h: "history s' = history s2 @ [Load gs (loader I (history s2) gs)]"
    by simp
  from es have "history s2 = history s @ (es1 @ es2)" by simp
  from newEvents_trans [OF this h] newEvents_trans [OF es] newEvents_append [OF h]
  have new: "newEvents s s' = newEvents s s1 @ newEvents s1 s2 @ [Load gs (loader I (history s2) gs)]"
    by simp
  from fr_failures [OF loaded(2)] have "\<And>h. Web3 h Web3Throws \<notin> set (newEvents s s1)"
    by auto
  moreover from searchAll_failures [OF loaded(3)] have "\<And>h. Web3 h Web3Throws \<notin> set (newEvents s1 s2)"
    by auto
  ultimately have "Web3 h Web3Throws \<notin> set (newEvents s s')"
    using new by simp
  with assms(2) show ?thesis by simp
qed

text \<open>
  C7. A run of \<^verbatim>\<open>process\<close> either loads nothing, and then it returned early on an
  empty batch, or did not finish, or failed in a search; or it loads exactly once, as the
  last thing it does, after all searches have returned: what it loads is the list that the
  searches accumulated, which is the pairwise genealogies followed by the genealogies
  that the searches found. A run in which a store query or a chain query failed loads
  nothing.
\<close>

theorem process_persists_once:
  assumes "process fuel I options s = (r, s')"
  shows "((loads (history s') = loads (history s) \<and>
           (r = None \<or> r = Some (Inr None) \<or> r = Some (Inl TypeError) \<or>
            r = Some (Inl ChainQueryError)))
        \<or> (\<exists>s1 s2 cross response.
             searchAll fuel I (disableIndex options) (Collected.networks (collectNetworks options))
               (networkGenealogies (collectNetworks options)) s1 =
               (Some (Inr (networkGenealogies (collectNetworks options) @ cross)), s2) \<and>
             loads (history s2) = loads (history s) \<and>
             history s' = history s2 @
               [Load (networkGenealogies (collectNetworks options) @ cross) response] \<and>
             r = (case response of
                    LoadThrows \<Rightarrow> Some (Inl StoreLoadError)
                  | LoadReturns results \<Rightarrow> Some (Inr (Some results))))) \<and>
         ((\<exists>q. Get q GetThrows \<in> set (newEvents s s')) \<or>
          (\<exists>h. Web3 h Web3Throws \<in> set (newEvents s s')) \<longrightarrow>
          loads (newEvents s s') = [])"
proof (intro conjI impI)
  show "(loads (history s') = loads (history s) \<and>
           (r = None \<or> r = Some (Inr None) \<or> r = Some (Inl TypeError) \<or>
            r = Some (Inl ChainQueryError)))
        \<or> (\<exists>s1 s2 cross response.
             searchAll fuel I (disableIndex options) (Collected.networks (collectNetworks options))
               (networkGenealogies (collectNetworks options)) s1 =
               (Some (Inr (networkGenealogies (collectNetworks options) @ cross)), s2) \<and>
             loads (history s2) = loads (history s) \<and>
             history s' = history s2 @
               [Load (networkGenealogies (collectNetworks options) @ cross) response] \<and>
             r = (case response of
                    LoadThrows \<Rightarrow> Some (Inl StoreLoadError)
                  | LoadReturns results \<Rightarrow> Some (Inr (Some results))))"
    by (rule process_load_cases [OF assms])
next
  assume "(\<exists>q. Get q GetThrows \<in> set (newEvents s s')) \<or>
          (\<exists>h. Web3 h Web3Throws \<in> set (newEvents s s'))"
  then show "loads (newEvents s s') = []"
  proof
    assume "\<exists>q. Get q GetThrows \<in> set (newEvents s s')"
    then obtain q where "Get q GetThrows \<in> set (newEvents s s')" by blast
    from process_store_failure [OF assms this] show ?thesis by simp
  next
    assume "\<exists>h. Web3 h Web3Throws \<in> set (newEvents s s')"
    then obtain h where "Web3 h Web3Throws \<in> set (newEvents s s')" by blast
    from process_chain_failure [OF assms this] show ?thesis by simp
  qed
qed

theorem process_persists_once_witness:
  "fst (process (Suc 0) quietStore sparseBatch initialState) = Some (Inr (Some [])) \<and>
   (\<exists>(s2 :: state) cross response.
      loads (history s2) = loads (history initialState) \<and>
      history (snd (process (Suc 0) quietStore sparseBatch initialState)) =
        history s2 @ [Load (networkGenealogies (collectNetworks sparseBatch) @ cross) response])"
proof -
  let ?run = "process (Suc 0) quietStore sparseBatch initialState"
  have nets: "collectNetworks sparseBatch =
      \<lparr>Collected.networks = [\<lparr>id' = ''n1''\<rparr>, \<lparr>id' = ''n1''\<rparr>, \<lparr>id' = ''n2''\<rparr>],
       networkGenealogies = [\<lparr>ancestor = \<lparr>id' = ''n1''\<rparr>, descendant = \<lparr>id' = ''n2''\<rparr>\<rparr>]\<rparr>"
    by (simp add: collectNetworks_def sparseBatch_sorted reducer_def toIdObject_def n1_def n2_def)
  have batch: "Options.networks sparseBatch \<noteq> []" "disableIndex sparseBatch = False"
    by (simp_all add: sparseBatch_def)
  have r: "fst ?run = Some (Inr (Some []))"
    unfolding process_def Let_def nets
    by (simp add: batch earliest_def findRelation_def Let_def
          queryNextPossiblyRelatedNetworks_def load_def quietStore_def)
  have eq: "?run = (fst ?run, snd ?run)"
    by simp
  have loaded: "\<not> (loads (history (snd ?run)) = loads (history initialState) \<and>
      (fst ?run = None \<or> fst ?run = Some (Inr None) \<or> fst ?run = Some (Inl TypeError) \<or>
       fst ?run = Some (Inl ChainQueryError)))"
    using r by simp
  from process_persists_once [OF eq, THEN conjunct1] loaded
  obtain s2 :: state and cross response where
    "loads (history s2) = loads (history initialState)"
    "history (snd ?run) =
       history s2 @ [Load (networkGenealogies (collectNetworks sparseBatch) @ cross) response]"
    by blast
  with r show ?thesis
    by blast
qed

text \<open>
  C9, as the code has it. No pairwise genealogy of \<^verbatim>\<open>collectNetworks\<close> links a network
  to itself. \<^verbatim>\<open>process\<close> does not compare the network it searches for with the candidate
  it gets back, so the genealogies it adds are free of self-edges when the store never
  proposes a network as its own relative: then no genealogy that a run loads links a
  network to itself.
\<close>

theorem process_no_self_edges:
  assumes store: "\<forall>h q result. graphql I h q = GetReturns (Some result) \<longrightarrow>
        resourceId q \<notin> id' ` set (CandidateSearchResult.networks result)"
    and run: "process fuel I options s = (r, s')"
  shows "(\<forall>e \<in> set (networkGenealogies (collectNetworks options)).
            id' (ancestor e) \<noteq> id' (descendant e)) \<and>
         (\<forall>gs \<in> set (loads (newEvents s s')).
            \<forall>e \<in> set gs. id' (ancestor e) \<noteq> id' (descendant e))"
proof
  show pw: "\<forall>e \<in> set (networkGenealogies (collectNetworks options)).
            id' (ancestor e) \<noteq> id' (descendant e)"
    by (auto simp: collect_genealogies_eq toIdObject_def)
  from run show "\<forall>gs \<in> set (loads (newEvents s s')).
            \<forall>e \<in> set gs. id' (ancestor e) \<noteq> id' (descendant e)"
  proof (cases rule: process_cases)
    case emptyBatch
    then show ?thesis by (simp add: newEvents_def)
  next
    case (firstStops r0)
    from fr_events [OF firstStops(2)] obtain es where "history s' = history s @ es" "loads es = []"
      by blast
    then show ?thesis by (simp add: newEvents_def)
  next
    case (searchStops f0 s1 r1)
    from fr_events [OF searchStops(2)] searchAll_events [OF searchStops(3)]
    obtain es1 es2 where "history s' = history s @ (es1 @ es2)" "loads (es1 @ es2) = []"
      by (auto simp: loads_append)
    then show ?thesis by (simp add: newEvents_def)
  next
    case (loaded f0 s1 gs s2 rl)
    from fr_events [OF loaded(2)] searchAll_events [OF loaded(3)]
    obtain es1 es2 where es: "history s2 = history s @ (es1 @ es2)" "loads (es1 @ es2) = []"
      by (auto simp: loads_append)
    from load_eq [OF loaded(4)] have
      h: "history s' = history s2 @ [Load gs (loader I (history s2) gs)]"
      by simp
    from es h have "history s' = history s @ ((es1 @ es2) @ [Load gs (loader I (history s2) gs)])"
      by simp
    from newEvents_append [OF this] es(2)
    have new: "loads (newEvents s s') = [gs]"
      by (simp add: loads_append del: append_assoc)
    from searchAll_genealogies [OF loaded(3)] store obtain cross where
      "gs = networkGenealogies (collectNetworks options) @ cross"
      "\<forall>e \<in> set cross. id' (ancestor e) \<noteq> id' (descendant e)"
      by blast
    with pw have "\<forall>e \<in> set gs. id' (ancestor e) \<noteq> id' (descendant e)"
      by auto
    with new show ?thesis by simp
  qed
qed

text \<open>The batch of \<open>n2\<close> alone: its ancestor \<open>n1\<close> is found and confirmed, and loaded.\<close>

theorem process_no_self_edges_witness:
  "loads (newEvents initialState
     (snd (process (Suc 0) knownStore \<lparr>Options.networks = [Some n2], disableIndex = False\<rparr>
        initialState))) =
     [[\<lparr>ancestor = \<lparr>id' = ''n1''\<rparr>, descendant = \<lparr>id' = ''n2''\<rparr>\<rparr>]] \<and>
   id' (ancestor \<lparr>ancestor = \<lparr>id' = ''n1''\<rparr>, descendant = \<lparr>id' = ''n2''\<rparr>\<rparr>) \<noteq>
   id' (descendant \<lparr>ancestor = \<lparr>id' = ''n1''\<rparr>, descendant = \<lparr>id' = ''n2''\<rparr>\<rparr>)"
proof -
  let ?batch = "\<lparr>Options.networks = [Some n2], disableIndex = False\<rparr>"
  let ?run = "process (Suc 0) knownStore ?batch initialState"
  let ?e = "\<lparr>ancestor = \<lparr>id' = ''n1''\<rparr>, descendant = \<lparr>id' = ''n2''\<rparr>\<rparr>"
  have store: "\<forall>h q result. graphql knownStore h q = GetReturns (Some result) \<longrightarrow>
      resourceId q \<notin> id' ` set (CandidateSearchResult.networks result)"
    by (auto simp: knownStore_def)
  have nets: "collectNetworks ?batch =
      \<lparr>Collected.networks = [\<lparr>id' = ''n2''\<rparr>], networkGenealogies = []\<rparr>"
    by (simp add: collectNetworks_def sortedResources_def toIdObject_def n2_def)
  have l: "loads (newEvents initialState (snd ?run)) = [[?e]]"
    unfolding process_def Let_def nets
    by (simp add: earliest_def findRelation_def Let_def
          queryNextPossiblyRelatedNetworks_def load_def knownStore_def newEvents_def
          initialState_def toIdObject_def n1_def)
  have eq: "?run = (fst ?run, snd ?run)"
    by simp
  from process_no_self_edges [OF store eq] l
  have "id' (ancestor ?e) \<noteq> id' (descendant ?e)"
    by simp
  with l show ?thesis by simp
qed

text \<open>
  The batch of \<open>n1\<close> alone, with a store that proposes \<open>n1\<close> as its own ancestor and
  descendant, on a chain that has its block: two self-edges are loaded.
\<close>

theorem process_loads_self_edge:
  "loads (history
     (snd (process (Suc 0) selfStore \<lparr>Options.networks = [Some n1], disableIndex = False\<rparr>
        initialState))) =
     [[\<lparr>ancestor = \<lparr>id' = ''n1''\<rparr>, descendant = \<lparr>id' = ''n1''\<rparr>\<rparr>,
       \<lparr>ancestor = \<lparr>id' = ''n1''\<rparr>, descendant = \<lparr>id' = ''n1''\<rparr>\<rparr>]]"
proof -
  have nets: "collectNetworks \<lparr>Options.networks = [Some n1], disableIndex = False\<rparr> =
      \<lparr>Collected.networks = [\<lparr>id' = ''n1''\<rparr>], networkGenealogies = []\<rparr>"
    by (simp add: collectNetworks_def sortedResources_def toIdObject_def n1_def)
  show ?thesis
    unfolding process_def Let_def nets
    by (simp add: earliest_def findRelation_def Let_def
          queryNextPossiblyRelatedNetworks_def load_def selfStore_def
          initialState_def toIdObject_def n1_def)
qed

text \<open>
  C1, on the code. When a store query of a run fails, \<^verbatim>\<open>queryNextPossiblyRelatedNetworks\<close>
  catches and logs the failure and then reads \<^verbatim>\<open>result.networks\<close> of a \<^verbatim>\<open>result\<close> that
  was never assigned: the run ends with a TypeError, not with the store's failure.
  Nothing is loaded.
\<close>

theorem store_failure_raises_TypeError:
  assumes "process fuel I options s = (r, s')"
    and "Get q GetThrows \<in> set (newEvents s s')"
  shows "r = Some (Inl TypeError) \<and> r \<noteq> Some (Inl StoreQueryError) \<and>
         loads (newEvents s s') = []"
  using assms by (rule process_store_failure)

theorem store_failure_raises_TypeError_witness:
  "fst (process (Suc 0) failingStore sparseBatch initialState) = Some (Inl TypeError) \<and>
   loads (newEvents initialState (snd (process (Suc 0) failingStore sparseBatch initialState))) = []"
proof -
  let ?run = "process (Suc 0) failingStore sparseBatch initialState"
  let ?q = "\<lparr>resourceId = ''n1'', forRelation = Ancestor, fragment = 0,
             excluded = [], indexDisabled = False\<rparr>"
  have nets: "Collected.networks (collectNetworks sparseBatch) =
      [\<lparr>id' = ''n1''\<rparr>, \<lparr>id' = ''n1''\<rparr>, \<lparr>id' = ''n2''\<rparr>]"
    by (simp add: collect_networks_eq sparseBatch_sorted toIdObject_def n1_def n2_def)
  have batch: "Options.networks sparseBatch \<noteq> []" "disableIndex sparseBatch = False"
    by (simp_all add: sparseBatch_def)
  have run: "snd ?run = \<lparr>history = [Get ?q GetThrows], fragmentIndex = Suc 0\<rparr>"
    unfolding process_def Let_def nets
    by (simp add: batch earliest_def findRelation_def Let_def
          queryNextPossiblyRelatedNetworks_def failingStore_def quietStore_def initialState_def)
  have start: "history initialState = []"
    by (simp add: initialState_def)
  have failed: "Get ?q GetThrows \<in> set (newEvents initialState (snd ?run))"
    by (simp add: run newEvents_def start)
  have eq: "?run = (fst ?run, snd ?run)"
    by simp
  from store_failure_raises_TypeError [OF eq failed] show ?thesis
    by simp
qed

text \<open>
  C2, on the code. \<^verbatim>\<open>process\<close> returns early only when the batch has no entries at
  all. For a batch that has entries, all of them absent, \<^verbatim>\<open>collectNetworks\<close> returns no
  networks, \<^verbatim>\<open>networks[0]\<close> is \<^verbatim>\<open>undefined\<close>, and the search for its ancestor ends the
  run with a TypeError, before any request is issued.
\<close>

theorem process_all_absent_raises_TypeError:
  assumes "Options.networks options \<noteq> []"
    and "present (Options.networks options) = []"
  shows "process (Suc fuel) I options s = (Some (Inl TypeError), s)"
proof -
  have "findRelation (Suc fuel) I Ancestor None (disableIndex options) s = (Some (Inl TypeError), s)"
    by (simp add: findRelation_def queryNextPossiblyRelatedNetworks_def)
  with assms earliest_absent [OF assms(2)] show ?thesis
    by (simp add: process_def)
qed

theorem process_all_absent_raises_TypeError_witness:
  "process (Suc 0) quietStore \<lparr>Options.networks = [None], disableIndex = False\<rparr> initialState =
     (Some (Inl TypeError), initialState)"
proof -
  have "Options.networks \<lparr>Options.networks = [None], disableIndex = False\<rparr> \<noteq> []"
    and "present (Options.networks \<lparr>Options.networks = [None], disableIndex = False\<rparr>) = []"
    by simp_all
  then show ?thesis
    by (rule process_all_absent_raises_TypeError)
qed

text \<open>The batch with no entries is a no-op: nothing is requested and nothing is loaded.\<close>

lemma process_empty:
  "process fuel I \<lparr>Options.networks = [], disableIndex = d\<rparr> s = (Some (Inr None), s)"
  by (simp add: process_def)

end
